theory Spec2Isabelle
  imports Complex_Main "HOL-Library.Multiset" "HOL-Library.Log_Nat"
begin

section \<open>Data model\<close>

text \<open>
  The rows of the entity store, as the routes read and write them. The lifecycle columns
  hold one of three strings (\<^verbatim>\<open>'Pendiente'\<close>, \<^verbatim>\<open>'En curso'\<close>, \<^verbatim>\<open>'Finalizado'\<close>), the
  tournament type one of the four values of \<^verbatim>\<open>typeMapping\<close>; both are closed enumerations.
\<close>

datatype estado = Pendiente | EnCurso | Finalizado

datatype tipo = EliminacionDirecta | DobleEliminacion | RoundRobin | GruposEliminacion

record player =
  p_id :: nat
  nombre :: string
  puntos :: int
  ranking :: nat

record tournament =
  t_id :: nat
  tipo :: tipo
  t_estado :: estado
  setsPorPartido :: nat

text \<open>
  The object a generator pushes for \<^verbatim>\<open>prisma.match.createMany\<close>. A pending match is
  pushed with the five properties \<^verbatim>\<open>torneoId, jugador1Id, jugador2Id, ronda, fase\<close> only.

  Modelled from the spec: the Prisma schema is not among the sources, so the column
  defaults of a match created without \<^verbatim>\<open>ganadorId\<close>, \<^verbatim>\<open>setsJ1\<close>, \<^verbatim>\<open>setsJ2\<close> and
  \<^verbatim>\<open>estado\<close> are those of the spec's data model: no winner, zero sets won, state Pending.
\<close>

record match_data =
  torneoId :: nat
  jugador1Id :: nat
  jugador2Id :: "nat option"
  ronda :: nat
  fase :: string
  ganadorId :: "nat option"
  setsJ1 :: nat
  setsJ2 :: nat
  estado :: estado

text \<open>A stored match: its autoincrement id and its columns.\<close>

type_synonym match = "nat \<times> match_data"

record set_row =
  partidoId :: nat
  numeroSet :: nat
  puntosJ1 :: int
  puntosJ2 :: int
  set_ganadorId :: "nat option"

record tournament_result =
  r_torneoId :: nat
  jugadorId :: nat
  posicionFinal :: nat
  puntosGanados :: int

text \<open>A group's name is a JavaScript string: the list of its UTF-16 code units.\<close>

record group_row =
  g_torneoId :: nat
  g_nombre :: "nat list"
  jugadores :: "nat list"

text \<open>
  The store: every table in insertion order.

  Modelled from the spec: match ids are the store's autoincrement key; \<open>matchSeq\<close> is the
  next id it hands out, so ids grow in creation order.
\<close>

record store =
  players :: "player list"
  tournaments :: "tournament list"
  matches :: "match list"
  sets :: "set_row list"
  tournamentResults :: "tournament_result list"
  groups :: "group_row list"
  matchSeq :: nat

text \<open>JavaScript truthiness of a nullable integer id: \<^verbatim>\<open>null\<close> and \<^verbatim>\<open>0\<close> are falsy.\<close>

fun truthy :: "nat option \<Rightarrow> bool" where
  "truthy None = False"
| "truthy (Some i) = (i \<noteq> 0)"

section \<open>Store operations\<close>

definition findTournament :: "nat \<Rightarrow> store \<Rightarrow> tournament option" where
  "findTournament tid s = find (\<lambda>t. t_id t = tid) (tournaments s)"

definition findMatch :: "nat \<Rightarrow> store \<Rightarrow> match option" where
  "findMatch mid s = find (\<lambda>m. fst m = mid) (matches s)"

definition setTournamentEstado :: "nat \<Rightarrow> estado \<Rightarrow> store \<Rightarrow> store" where
  "setTournamentEstado tid e s =
     s\<lparr>tournaments := map (\<lambda>t. if t_id t = tid then t\<lparr>t_estado := e\<rparr> else t) (tournaments s)\<rparr>"

text \<open>\<^verbatim>\<open>prisma.match.createMany\<close>: the rows are appended with consecutive fresh ids.\<close>

definition createManyMatches :: "match_data list \<Rightarrow> store \<Rightarrow> store" where
  "createManyMatches ds s =
     s\<lparr>matches := matches s @ zip [matchSeq s ..< matchSeq s + length ds] ds,
       matchSeq := matchSeq s + length ds\<rparr>"

text \<open>
  \<^verbatim>\<open>prisma.player.update({ where: { id }, data: { puntos: { increment: k } } })\<close> throws
  when no player has that id: \<open>None\<close> is the exception.
\<close>

definition incrementPuntos :: "nat \<Rightarrow> int \<Rightarrow> player list \<Rightarrow> player list option" where
  "incrementPuntos i k ps =
     (if \<exists>p \<in> set ps. p_id p = i
      then Some (map (\<lambda>p. if p_id p = i then p\<lparr>puntos := puntos p + k\<rparr> else p) ps)
      else None)"

section \<open>Standings calculator\<close>

text \<open>
  \<^verbatim>\<open>calculateFinalPositions\<close> counts wins in a \<^verbatim>\<open>Map\<close>, which keeps its keys in insertion
  order: an association list, a new key appended at the end.
\<close>

fun addWin :: "nat \<Rightarrow> (nat \<times> nat) list \<Rightarrow> (nat \<times> nat) list" where
  "addWin w [] = [(w, 1)]"
| "addWin w ((k, c) # kvs) = (if k = w then (k, c + 1) # kvs else (k, c) # addWin w kvs)"

fun countWins :: "match list \<Rightarrow> (nat \<times> nat) list \<Rightarrow> (nat \<times> nat) list" where
  "countWins [] acc = acc"
| "countWins (m # ms) acc =
     (case ganadorId (snd m) of
        None \<Rightarrow> countWins ms acc
      | Some w \<Rightarrow> if w \<noteq> 0 then countWins ms (addWin w acc) else countWins ms acc)"

text \<open>\<^verbatim>\<open>.sort((a, b) => b.wins - a.wins)\<close>: a stable sort, most wins first.\<close>

definition calculateFinalPositions :: "match list \<Rightarrow> (nat \<times> nat) list" where
  "calculateFinalPositions ms = sort_key (\<lambda>kv. - int (snd kv)) (countWins ms [])"

definition calculatePoints :: "nat \<Rightarrow> int" where
  "calculatePoints position =
     (if position = 1 then 100 else if position = 2 then 75 else if position = 3 then 50
      else if position = 4 then 25 else if position = 5 then 10 else if position = 6 then 10
      else if position = 7 then 5 else if position = 8 then 5 else 1)"

text \<open>
  \<^verbatim>\<open>updateRankings\<close>: all players ordered by points, highest first, receive rank 1, 2, ...
  Only the \<open>ranking\<close> column is written. The order among equal points is the store's; it
  is taken to be the table order.
\<close>

fun assignRanks :: "nat list \<Rightarrow> nat \<Rightarrow> player list \<Rightarrow> player list" where
  "assignRanks [] i ps = ps"
| "assignRanks (k # ks) i ps =
     assignRanks ks (i + 1) (map (\<lambda>p. if p_id p = k then p\<lparr>ranking := i + 1\<rparr> else p) ps)"

definition updateRankings :: "store \<Rightarrow> store" where
  "updateRankings s =
     s\<lparr>players := assignRanks (map p_id (sort_key (\<lambda>p. - puntos p) (players s))) 0 (players s)\<rparr>"

text \<open>
  The loop of \<^verbatim>\<open>finalizeTournament\<close> that adds the awarded points. An exception stops it
  with the increments made so far kept: \<open>Inl\<close> carries the players table at the exception.
\<close>

fun awardAll :: "tournament_result list \<Rightarrow> player list \<Rightarrow> player list + player list" where
  "awardAll [] ps = Inr ps"
| "awardAll (r # rs) ps =
     (case incrementPuntos (jugadorId r) (puntosGanados r) ps of
        None \<Rightarrow> Inl ps
      | Some ps' \<Rightarrow> awardAll rs ps')"

text \<open>\<^verbatim>\<open>orderBy: [{ ronda: 'desc' }, { id: 'asc' }]\<close>\<close>

definition tournamentMatches :: "nat \<Rightarrow> store \<Rightarrow> match list" where
  "tournamentMatches tid s =
     sort_key (\<lambda>m. - int (ronda (snd m)))
       (sort_key fst (filter (\<lambda>m. torneoId (snd m) = tid) (matches s)))"

definition buildResults :: "nat \<Rightarrow> (nat \<times> nat) list \<Rightarrow> tournament_result list" where
  "buildResults tid positions =
     map (\<lambda>(index, position).
            \<lparr>r_torneoId = tid, jugadorId = fst position, posicionFinal = index + 1,
             puntosGanados = calculatePoints (index + 1)\<rparr>)
         (zip [0 ..< length positions] positions)"

text \<open>
  \<^verbatim>\<open>finalizeTournament\<close>. Its body is one \<^verbatim>\<open>try\<close> block whose handler only logs: an
  exception ends the call and leaves what was written before it. A missing tournament
  makes \<^verbatim>\<open>existingTournament.estado\<close> throw before anything is written.
\<close>

definition finalizeTournament :: "nat \<Rightarrow> nat \<Rightarrow> store \<Rightarrow> store" where
  "finalizeTournament tournamentId winnerId s =
     (case findTournament tournamentId s of
        None \<Rightarrow> s
      | Some existingTournament \<Rightarrow>
          if t_estado existingTournament = Finalizado then s
          else
            let positions = calculateFinalPositions (tournamentMatches tournamentId s);
                results = buildResults tournamentId positions;
                s1 = s\<lparr>tournamentResults := tournamentResults s @ results\<rparr>
            in (case awardAll results (players s1) of
                  Inl ps \<Rightarrow> s1\<lparr>players := ps\<rparr>
                | Inr ps \<Rightarrow>
                    setTournamentEstado tournamentId Finalizado
                      (updateRankings (s1\<lparr>players := ps\<rparr>))))"

section \<open>Progression engine\<close>

definition pendingMatch :: "nat \<Rightarrow> nat \<Rightarrow> nat \<Rightarrow> nat \<Rightarrow> string \<Rightarrow> match_data" where
  "pendingMatch tid a b r f =
     \<lparr>torneoId = tid, jugador1Id = a, jugador2Id = Some b, ronda = r, fase = f,
      ganadorId = None, setsJ1 = 0, setsJ2 = 0, estado = Pendiente\<rparr>"

definition byeMatch :: "nat \<Rightarrow> nat \<Rightarrow> nat \<Rightarrow> string \<Rightarrow> match_data" where
  "byeMatch tid a r f =
     \<lparr>torneoId = tid, jugador1Id = a, jugador2Id = None, ronda = r, fase = f,
      ganadorId = Some a, setsJ1 = 1, setsJ2 = 0, estado = Finalizado\<rparr>"

text \<open>\<^verbatim>\<open>for (let i = 0; i < winners.length; i += 2)\<close> of \<^verbatim>\<open>generateNextMatch\<close>.\<close>

function nextMatchesFrom :: "nat list \<Rightarrow> nat \<Rightarrow> nat \<Rightarrow> nat \<Rightarrow> string \<Rightarrow> match_data list" where
  "nextMatchesFrom winners i tid nextRound f =
     (if i < length winners
      then (if i + 1 < length winners
            then pendingMatch tid (winners ! i) (winners ! (i + 1)) nextRound f
            else byeMatch tid (winners ! i) nextRound f)
           # nextMatchesFrom winners (i + 2) tid nextRound f
      else [])"
  by pat_completeness auto
termination
  by (relation "measure (\<lambda>(winners, i, tid, nextRound, f). length winners - i)") auto

definition roundMatches :: "match \<Rightarrow> store \<Rightarrow> match list" where
  "roundMatches completedMatch s =
     sort_key fst
       (filter (\<lambda>m. torneoId (snd m) = torneoId (snd completedMatch)
                   \<and> ronda (snd m) = ronda (snd completedMatch)
                   \<and> fase (snd m) = fase (snd completedMatch)) (matches s))"

definition roundWinners :: "match list \<Rightarrow> nat list" where
  "roundWinners ms =
     List.map_filter (\<lambda>m. if truthy (ganadorId (snd m)) then ganadorId (snd m) else None) ms"

definition generateNextMatch :: "match \<Rightarrow> store \<Rightarrow> store" where
  "generateNextMatch completedMatch s =
     (let rms = roundMatches completedMatch s;
          allCompleted = list_all (\<lambda>m. estado (snd m) = Finalizado) rms
      in if \<not> allCompleted then s
         else
           let winners = roundWinners rms
           in if length winners \<le> 1
              then (if length winners = 1
                    then finalizeTournament (torneoId (snd completedMatch)) (winners ! 0) s
                    else s)
              else createManyMatches
                     (nextMatchesFrom winners 0 (torneoId (snd completedMatch))
                        (ronda (snd completedMatch) + 1) (fase (snd completedMatch))) s)"

section \<open>Result validator\<close>

record set_input =
  player1Score :: int
  player2Score :: int

text \<open>
  The body of \<^verbatim>\<open>PUT /:id/result\<close>: \<^verbatim>\<open>sets\<close> has passed \<^verbatim>\<open>isArray\<close> and \<^verbatim>\<open>winnerId\<close>
  \<^verbatim>\<open>isInt\<close> when the handler reads them; \<^verbatim>\<open>status\<close> is the string sent.
\<close>

record result_body =
  b_sets :: "set_input list"
  winnerId :: nat
  status :: string

text \<open>\<^verbatim>\<open>body('status').isIn(['Pendiente', 'En curso', 'Finalizado'])\<close>\<close>

definition statusEstado :: "string \<Rightarrow> estado option" where
  "statusEstado st =
     (if st = ''Pendiente'' then Some Pendiente
      else if st = ''En curso'' then Some EnCurso
      else if st = ''Finalizado'' then Some Finalizado
      else None)"

text \<open>Each \<^verbatim>\<open>return res.status(...)\<close> of the handler, in the order of the source.\<close>

datatype rejection =
    ValidationErrors
  | PartidoNoEncontrado
  | PartidoYaFinalizado
  | GanadorNoEsJugador
  | SinSets
  | SetsAdicionales
  | SetsSuperanMaximo
  | PartidoNoCompletado
  | SoloUnGanador
  | GanadorNoCoincide
  | ErrorInterno

text \<open>The \<^verbatim>\<open>forEach\<close> that counts the sets won by each side.\<close>

fun countSets :: "set_input list \<Rightarrow> nat \<times> nat \<Rightarrow> nat \<times> nat" where
  "countSets [] acc = acc"
| "countSets (st # rest) (j1, j2) =
     (if player1Score st > player2Score st then countSets rest (j1 + 1, j2)
      else if player2Score st > player1Score st then countSets rest (j1, j2 + 1)
      else countSets rest (j1, j2))"

text \<open>\<^verbatim>\<open>sets.map((set, index) => ...)\<close>: the rows that replace the match's stored sets.\<close>

definition setsToCreate :: "nat \<Rightarrow> match_data \<Rightarrow> set_input list \<Rightarrow> set_row list" where
  "setsToCreate mid d ss =
     map (\<lambda>(index, st).
            \<lparr>partidoId = mid, numeroSet = index + 1,
             puntosJ1 = player1Score st, puntosJ2 = player2Score st,
             set_ganadorId = (if player1Score st > player2Score st
                              then Some (jugador1Id d) else jugador2Id d)\<rparr>)
         (zip [0 ..< length ss] ss)"

definition updateMatch :: "nat \<Rightarrow> (match_data \<Rightarrow> match_data) \<Rightarrow> store \<Rightarrow> store" where
  "updateMatch mid f s =
     s\<lparr>matches := map (\<lambda>m. if fst m = mid then (fst m, f (snd m)) else m) (matches s)\<rparr>"

definition replaceSets :: "nat \<Rightarrow> set_row list \<Rightarrow> store \<Rightarrow> store" where
  "replaceSets mid rows s =
     s\<lparr>sets := filter (\<lambda>r. partidoId r \<noteq> mid) (sets s) @ rows\<rparr>"

text \<open>
  \<^verbatim>\<open>PUT /:id/result\<close>. Every rejection returns before the first write, so a rejected
  submission leaves the store as it was. \<^verbatim>\<open>Math.ceil(maxSets / 2)\<close> on an integer is
  \<open>(maxSets + 1) div 2\<close>. The match's tournament is read through \<^verbatim>\<open>match.torneo\<close>; if it
  is missing the property access throws and the handler answers 500.
\<close>

definition putResult :: "nat \<Rightarrow> result_body \<Rightarrow> store \<Rightarrow> (rejection + match) \<times> store" where
  "putResult mid body s =
     (case statusEstado (status body) of
        None \<Rightarrow> (Inl ValidationErrors, s)
      | Some st \<Rightarrow>
     (case findMatch mid s of
        None \<Rightarrow> (Inl PartidoNoEncontrado, s)
      | Some m \<Rightarrow>
          let d = snd m in
          if estado d = Finalizado then (Inl PartidoYaFinalizado, s)
          else if winnerId body \<noteq> jugador1Id d \<and> Some (winnerId body) \<noteq> jugador2Id d
          then (Inl GanadorNoEsJugador, s)
          else if length (b_sets body) = 0 then (Inl SinSets, s)
          else
            let (sJ1, sJ2) = countSets (b_sets body) (0, 0) in
            (case findTournament (torneoId d) s of
               None \<Rightarrow> (Inl ErrorInterno, s)
             | Some torneo \<Rightarrow>
                 let maxSets = setsPorPartido torneo;
                     setsNeeded = (maxSets + 1) div 2;
                     isCompleted = (sJ1 \<ge> setsNeeded \<or> sJ2 \<ge> setsNeeded)
                 in if isCompleted \<and> int (length (b_sets body)) > int setsNeeded * 2 - 1
                    then (Inl SetsAdicionales, s)
                    else if sJ1 + sJ2 > maxSets then (Inl SetsSuperanMaximo, s)
                    else if \<not> isCompleted then (Inl PartidoNoCompletado, s)
                    else if sJ1 \<ge> setsNeeded \<and> sJ2 \<ge> setsNeeded then (Inl SoloUnGanador, s)
                    else
                      let actualWinner = (if sJ1 \<ge> setsNeeded then Some (jugador1Id d)
                                          else jugador2Id d)
                      in if Some (winnerId body) \<noteq> actualWinner
                         then (Inl GanadorNoCoincide, s)
                         else
                           let d' = d\<lparr>setsJ1 := sJ1, setsJ2 := sJ2,
                                      ganadorId := Some (winnerId body), estado := st\<rparr>;
                               s1 = updateMatch mid (\<lambda>_. d') s;
                               s2 = replaceSets mid (setsToCreate mid d (b_sets body)) s1;
                               s3 = generateNextMatch (mid, d') s2
                           in (Inr (mid, d'), s3))))"

section \<open>Bracket generator\<close>

text \<open>
  \<^verbatim>\<open>Math.ceil(Math.log2(numPlayers))\<close> by its exact value on a positive integer: the least
  \<open>r\<close> with \<open>numPlayers \<le> 2 ^ r\<close> (lemma \<open>numRounds_ceiling_log\<close> below). On an empty
  list \<^verbatim>\<open>Math.log2(0)\<close> is \<^verbatim>\<open>-Infinity\<close> and \<^verbatim>\<open>Math.pow(2, -Infinity)\<close> is 0.
\<close>

function numRounds :: "nat \<Rightarrow> nat" where
  "numRounds n = (if n \<le> 1 then 0 else Suc (numRounds ((n + 1) div 2)))"
  by pat_completeness auto
termination
  by (relation "measure (\<lambda>n. n)") auto

definition totalSlots :: "nat \<Rightarrow> nat" where
  "totalSlots n = (if n = 0 then 0 else 2 ^ numRounds n)"

text \<open>\<^verbatim>\<open>while (players.length < totalSlots) players.push(null)\<close>\<close>

function padByes :: "'a option list \<Rightarrow> nat \<Rightarrow> 'a option list" where
  "padByes ps slots = (if length ps < slots then padByes (ps @ [None]) slots else ps)"
  by pat_completeness auto
termination
  by (relation "measure (\<lambda>(ps, slots). slots - length ps)") auto

text \<open>
  The Fisher-Yates loop \<^verbatim>\<open>for (let i = players.length - 1; i > 0; i--)\<close>. The random source
  is a parameter: \<open>rnd i\<close> is the value of \<^verbatim>\<open>Math.floor(Math.random() * (i + 1))\<close> drawn in the
  iteration with index \<open>i\<close>; \<^verbatim>\<open>Math.random()\<close> lies in [0, 1), so \<open>rnd i \<le> i\<close>.
\<close>

definition swap :: "nat \<Rightarrow> nat \<Rightarrow> 'a list \<Rightarrow> 'a list" where
  "swap i j xs = xs[i := xs ! j, j := xs ! i]"

fun shuffleFrom :: "(nat \<Rightarrow> nat) \<Rightarrow> nat \<Rightarrow> 'a list \<Rightarrow> 'a list" where
  "shuffleFrom rnd 0 xs = xs"
| "shuffleFrom rnd (Suc k) xs = shuffleFrom rnd k (swap (Suc k) (rnd (Suc k)) xs)"

text \<open>Reading an array: an index past the end yields \<^verbatim>\<open>undefined\<close>, falsy like \<^verbatim>\<open>null\<close>.\<close>

definition slot :: "'a option list \<Rightarrow> nat \<Rightarrow> 'a option" where
  "slot xs i = (if i < length xs then xs ! i else None)"

text \<open>\<^verbatim>\<open>for (let i = 0; i < totalSlots; i += 2)\<close> of \<^verbatim>\<open>generateEliminationBracket\<close>.\<close>

function firstRoundFrom :: "player option list \<Rightarrow> nat \<Rightarrow> nat \<Rightarrow> nat \<Rightarrow> match_data list" where
  "firstRoundFrom ps i slots tid =
     (if i < slots
      then (case slot ps i of
              Some a \<Rightarrow> (case slot ps (i + 1) of
                           Some b \<Rightarrow> [pendingMatch tid (p_id a) (p_id b) 1 ''Principal'']
                         | None \<Rightarrow> [byeMatch tid (p_id a) 1 ''Principal''])
            | None \<Rightarrow> [])
           @ firstRoundFrom ps (i + 2) slots tid
      else [])"
  by pat_completeness auto
termination
  by (relation "measure (\<lambda>(ps, i, slots, tid). slots - i)") auto

definition shuffledSlots :: "(nat \<Rightarrow> nat) \<Rightarrow> player list \<Rightarrow> player option list" where
  "shuffledSlots rnd ps =
     (let padded = padByes (map Some ps) (totalSlots (length ps))
      in shuffleFrom rnd (length padded - 1) padded)"

definition generateEliminationBracket :: "(nat \<Rightarrow> nat) \<Rightarrow> player list \<Rightarrow> nat \<Rightarrow> match_data list" where
  "generateEliminationBracket rnd ps tid =
     firstRoundFrom (shuffledSlots rnd ps) 0 (totalSlots (length ps)) tid"

text \<open>
  \<^verbatim>\<open>generateRoundRobinBracket\<close>. The inner loop \<^verbatim>\<open>for (let i = 0; i < n / 2; i++)\<close> compares
  with the quotient \<^verbatim>\<open>n / 2\<close>: \<open>i < n / 2\<close> is \<open>2 * i < n\<close>.
\<close>

function roundPairsFrom :: "player option list \<Rightarrow> nat \<Rightarrow> nat \<Rightarrow> nat \<Rightarrow> nat \<Rightarrow> match_data list" where
  "roundPairsFrom pw i n rnd_no tid =
     (if 2 * i < n
      then (case slot pw i of
              Some a \<Rightarrow> (case slot pw (n - 1 - i) of
                           Some b \<Rightarrow> [pendingMatch tid (p_id a) (p_id b) rnd_no ''Principal'']
                         | None \<Rightarrow> [])
            | None \<Rightarrow> [])
           @ roundPairsFrom pw (i + 1) n rnd_no tid
      else [])"
  by pat_completeness auto
termination
  by (relation "measure (\<lambda>(pw, i, n, rnd_no, tid). n - 2 * i)") auto

text \<open>
  The rotation: \<^verbatim>\<open>temp = p[1]; for (i = 1; i < n - 1; i++) p[i] = p[i + 1]; p[n - 1] = temp\<close>.
  It runs only inside the round loop, where \<open>n \<ge> 2\<close> is the length of the array.
\<close>

function shiftFrom :: "'a list \<Rightarrow> nat \<Rightarrow> nat \<Rightarrow> 'a list" where
  "shiftFrom pw i n = (if i + 1 < n then shiftFrom (pw[i := pw ! (i + 1)]) (i + 1) n else pw)"
  by pat_completeness auto
termination
  by (relation "measure (\<lambda>(pw, i, n). n - i)") auto

definition rotatePlayers :: "'a list \<Rightarrow> nat \<Rightarrow> 'a list" where
  "rotatePlayers pw n = (let temp = pw ! 1 in (shiftFrom pw 1 n)[n - 1 := temp])"

function roundsFrom :: "player option list \<Rightarrow> nat \<Rightarrow> nat \<Rightarrow> nat \<Rightarrow> match_data list" where
  "roundsFrom pw rnd_no n tid =
     (if rnd_no + 1 \<le> n
      then roundPairsFrom pw 0 n rnd_no tid @ roundsFrom (rotatePlayers pw n) (rnd_no + 1) n tid
      else [])"
  by pat_completeness auto
termination
  by (relation "measure (\<lambda>(pw, rnd_no, n, tid). n - rnd_no)") auto

definition playersWithBye :: "player list \<Rightarrow> player option list" where
  "playersWithBye ps = (if length ps mod 2 = 0 then map Some ps else map Some ps @ [None])"

definition generateRoundRobinBracket :: "player list \<Rightarrow> nat \<Rightarrow> match_data list" where
  "generateRoundRobinBracket ps tid =
     roundsFrom (playersWithBye ps) 1 (length (playersWithBye ps)) tid"

text \<open>
  \<^verbatim>\<open>generateGroups\<close>. \<^verbatim>\<open>[...players].sort(() => Math.random() - 0.5)\<close> leaves the order to
  the engine's sort under a random comparator: the outcome is the parameter \<open>shuffled\<close>.
  \<^verbatim>\<open>slice(a, b)\<close> is \<open>take (b - a) (drop a xs)\<close>. \<^verbatim>\<open>String.fromCharCode(c)\<close> is the
  one code unit \<open>c mod 65536\<close>.
\<close>

definition generateGroups :: "player list \<Rightarrow> nat \<Rightarrow> nat \<Rightarrow> group_row list" where
  "generateGroups shuffled numGroups tid =
     (let playersPerGroup = (length shuffled + numGroups - 1) div numGroups
      in map (\<lambda>i. \<lparr>g_torneoId = tid,
                    g_nombre = map of_char ''Grupo '' @ [(65 + i) mod 65536],
                    jugadores = map p_id (take playersPerGroup (drop (i * playersPerGroup) shuffled))\<rparr>)
             [0 ..< numGroups])"

section \<open>Routes\<close>

datatype bracket_rejection = TorneoNoEncontrado | TorneoNoPendiente | MenosDeDosJugadores
  | JugadoresInexistentes

text \<open>\<^verbatim>\<open>prisma.player.findMany({ where: { id: { in: playerIds } } })\<close>, in table order.\<close>

definition findPlayers :: "nat list \<Rightarrow> store \<Rightarrow> player list" where
  "findPlayers playerIds s = filter (\<lambda>p. p_id p \<in> set playerIds) (players s)"

text \<open>
  \<^verbatim>\<open>POST /:id/generate-bracket\<close>. The answer of an accepted request is its
  \<^verbatim>\<open>matchesCreated\<close>. The two random sources are parameters: \<open>rnd\<close> for the Fisher-Yates
  draws, \<open>shuf\<close> for the outcome of the random sort of the groups format.
\<close>

definition generateBracket ::
  "(nat \<Rightarrow> nat) \<Rightarrow> (player list \<Rightarrow> player list) \<Rightarrow> nat \<Rightarrow> nat list \<Rightarrow> store
     \<Rightarrow> (bracket_rejection + nat) \<times> store" where
  "generateBracket rnd shuf tid playerIds s =
     (case findTournament tid s of
        None \<Rightarrow> (Inl TorneoNoEncontrado, s)
      | Some tournament \<Rightarrow>
          if t_estado tournament \<noteq> Pendiente then (Inl TorneoNoPendiente, s)
          else
            let ps = findPlayers playerIds s in
            if length ps < 2 then (Inl MenosDeDosJugadores, s)
            else
              let (ms, s1) =
                    (if tipo tournament = EliminacionDirecta
                     then (generateEliminationBracket rnd ps tid, s)
                     else if tipo tournament = GruposEliminacion
                     then ([], s\<lparr>groups := groups s
                                   @ generateGroups (shuf ps) ((length ps + 3) div 4) tid\<rparr>)
                     else if tipo tournament = RoundRobin
                     then (generateRoundRobinBracket ps tid, s)
                     else ([], s));
                  s2 = (if length ms > 0 then createManyMatches ms s1 else s1);
                  s3 = setTournamentEstado tid EnCurso s2
              in (Inr (length ms), s3))"

text \<open>
  \<^verbatim>\<open>POST /:id/manual-seeding\<close>. An entry of \<^verbatim>\<open>seededPlayers\<close> is a position and a player id.
  Writing an array past its end extends it with empty slots; a write at a negative index
  does not touch the elements.
\<close>

definition writeSlot :: "'a option list \<Rightarrow> int \<Rightarrow> 'a option \<Rightarrow> 'a option list" where
  "writeSlot xs k v =
     (if k < 0 then xs
      else if nat k < length xs then xs[nat k := v]
      else xs @ replicate (nat k - length xs) None @ [v])"

fun seedPositions :: "(int \<times> nat) list \<Rightarrow> player list \<Rightarrow> player option list \<Rightarrow> player option list" where
  "seedPositions [] ps positions = positions"
| "seedPositions (sp # sps) ps positions =
     seedPositions sps ps (writeSlot positions (fst sp - 1) (find (\<lambda>p. p_id p = snd sp) ps))"

function manualRoundFrom :: "player option list \<Rightarrow> nat \<Rightarrow> nat \<Rightarrow> nat \<Rightarrow> match_data list" where
  "manualRoundFrom positions i slots tid =
     (if i < slots
      then (case slot positions i of
              Some a \<Rightarrow> (case slot positions (i + 1) of
                           Some b \<Rightarrow> [pendingMatch tid (p_id a) (p_id b) 1 ''Principal'']
                         | None \<Rightarrow> [])
            | None \<Rightarrow> [])
           @ manualRoundFrom positions (i + 2) slots tid
      else [])"
  by pat_completeness auto
termination
  by (relation "measure (\<lambda>(positions, i, slots, tid). slots - i)") auto

definition manualSeeding :: "nat \<Rightarrow> (int \<times> nat) list \<Rightarrow> store \<Rightarrow> (bracket_rejection + nat) \<times> store" where
  "manualSeeding tid seededPlayers s =
     (case findTournament tid s of
        None \<Rightarrow> (Inl TorneoNoEncontrado, s)
      | Some tournament \<Rightarrow>
          if t_estado tournament \<noteq> Pendiente then (Inl TorneoNoPendiente, s)
          else
            let ps = findPlayers (map snd seededPlayers) s in
            if length ps \<noteq> length seededPlayers then (Inl JugadoresInexistentes, s)
            else
              let ms = (if tipo tournament = RoundRobin
                        then generateRoundRobinBracket ps tid
                        else
                          let slots = totalSlots (length seededPlayers);
                              positions = seedPositions seededPlayers ps (replicate slots None)
                          in manualRoundFrom positions 0 slots tid);
                  s1 = (if length ms > 0 then createManyMatches ms s else s);
                  s2 = setTournamentEstado tid EnCurso s1
              in (Inr (length ms), s2))"

text \<open>\<^verbatim>\<open>PUT /:id/start\<close>\<close>

datatype start_rejection = StartNoEncontrado | StartNoPendiente

definition startMatch :: "nat \<Rightarrow> store \<Rightarrow> (start_rejection + match) \<times> store" where
  "startMatch mid s =
     (case findMatch mid s of
        None \<Rightarrow> (Inl StartNoEncontrado, s)
      | Some m \<Rightarrow>
          if estado (snd m) \<noteq> Pendiente then (Inl StartNoPendiente, s)
          else (Inr (mid, (snd m)\<lparr>estado := EnCurso\<rparr>),
                updateMatch mid (\<lambda>d. d\<lparr>estado := EnCurso\<rparr>) s))"

text \<open>
  \<^verbatim>\<open>DELETE /:id\<close>. \<^verbatim>\<open>force\<close> is the query parameter as received: absent, or a string, which
  is truthy unless empty. The loop that subtracts the points stops at an exception (a
  player row that is missing), and the handler answers 500 with the deletions and the
  decrements made so far kept. The answer of a completed deletion is its
  \<^verbatim>\<open>pointsRemoved\<close> and \<^verbatim>\<open>totalPointsRemoved\<close>.

  Modelled from the spec: the schema's referential actions are not among the sources;
  \<^verbatim>\<open>deleteMany\<close> and \<^verbatim>\<open>delete\<close> remove the rows they select and nothing else.
\<close>

datatype delete_rejection = DeleteNoEncontrado | TienePartidos | DeleteErrorInterno

fun forceTruthy :: "string option \<Rightarrow> bool" where
  "forceTruthy None = False"
| "forceTruthy (Some v) = (v \<noteq> [])"

fun removePoints :: "tournament_result list \<Rightarrow> player list \<Rightarrow> player list + player list" where
  "removePoints [] ps = Inr ps"
| "removePoints (r # rs) ps =
     (case incrementPuntos (jugadorId r) (- puntosGanados r) ps of
        None \<Rightarrow> Inl ps
      | Some ps' \<Rightarrow> removePoints rs ps')"

definition deleteTournament ::
  "nat \<Rightarrow> string option \<Rightarrow> store \<Rightarrow> (delete_rejection + nat \<times> int) \<times> store" where
  "deleteTournament tid force s =
     (case findTournament tid s of
        None \<Rightarrow> (Inl DeleteNoEncontrado, s)
      | Some tournament \<Rightarrow>
          let matchCount = length (filter (\<lambda>m. torneoId (snd m) = tid) (matches s)) in
          if matchCount > 0 \<and> \<not> forceTruthy force then (Inl TienePartidos, s)
          else
            let results = filter (\<lambda>r. r_torneoId r = tid) (tournamentResults s);
                s1 = (if forceTruthy force \<and> matchCount > 0
                      then s\<lparr>matches := filter (\<lambda>m. torneoId (snd m) \<noteq> tid) (matches s)\<rparr>
                      else s);
                s2 = s1\<lparr>tournamentResults :=
                          filter (\<lambda>r. r_torneoId r \<noteq> tid) (tournamentResults s1)\<rparr>
            in (case removePoints results (players s2) of
                  Inl ps \<Rightarrow> (Inl DeleteErrorInterno, s2\<lparr>players := ps\<rparr>)
                | Inr ps \<Rightarrow>
                    (Inr (length results, sum_list (map puntosGanados results)),
                     s2\<lparr>players := ps,
                        tournaments := filter (\<lambda>t. t_id t \<noteq> tid) (tournaments s2)\<rparr>)))"

section \<open>Reachable stores\<close>

text \<open>
  The stores the engine can be in: it starts with no match, and each route that writes the
  match table is a step. The routes that never write a match (players, tournaments,
  accounts) are the last rule. \<open>reachable P s\<close> also keeps, in \<open>P\<close>, the ids of the matches
  that an accepted result submission has written with a status other than
  \<^verbatim>\<open>'Finalizado'\<close>: a rejected submission and one accepted with \<^verbatim>\<open>'Finalizado'\<close> leave \<open>P\<close>
  as it is, as every other route does.
\<close>

inductive reachable :: "nat set \<Rightarrow> store \<Rightarrow> bool" where
  reach_init: "matches s = [] \<Longrightarrow> reachable {} s"
| reach_bracket: "reachable P s \<Longrightarrow> (\<forall>i. rnd i \<le> i)
     \<Longrightarrow> reachable P (snd (generateBracket rnd shuf tid playerIds s))"
| reach_seeding: "reachable P s \<Longrightarrow> reachable P (snd (manualSeeding tid seeded s))"
| reach_rejected: "reachable P s \<Longrightarrow> putResult mid body s = (Inl e, s')
     \<Longrightarrow> reachable P s'"
| reach_finished: "reachable P s \<Longrightarrow> putResult mid body s = (Inr m', s')
     \<Longrightarrow> status body = ''Finalizado'' \<Longrightarrow> reachable P s'"
| reach_unfinished: "reachable P s \<Longrightarrow> putResult mid body s = (Inr m', s')
     \<Longrightarrow> status body \<noteq> ''Finalizado'' \<Longrightarrow> reachable (insert mid P) s'"
| reach_start: "reachable P s \<Longrightarrow> reachable P (snd (startMatch mid s))"
| reach_delete: "reachable P s \<Longrightarrow> reachable P (snd (deleteTournament tid force s))"
| reach_other: "reachable P s \<Longrightarrow> matches s' = matches s \<Longrightarrow> matchSeq s' = matchSeq s
     \<Longrightarrow> reachable P s'"

section \<open>Example inputs\<close>

definition playerA :: player where
  "playerA = \<lparr>p_id = 1, nombre = ''A'', puntos = 0, ranking = 0\<rparr>"

definition playerB :: player where
  "playerB = \<lparr>p_id = 2, nombre = ''B'', puntos = 0, ranking = 0\<rparr>"

text \<open>A best-of-three tournament under way, with its single match A against B pending.\<close>

definition duelStore :: store where
  "duelStore =
     \<lparr>players = [playerA, playerB],
      tournaments = [\<lparr>t_id = 1, tipo = EliminacionDirecta, t_estado = EnCurso, setsPorPartido = 3\<rparr>],
      matches = [(1, pendingMatch 1 1 2 1 ''Principal'')],
      sets = [], tournamentResults = [], groups = [], matchSeq = 2\<rparr>"

text \<open>A submission 11-5, 7-7, 11-9 for player A: its second set is tied.\<close>

definition tiedBody :: result_body where
  "tiedBody =
     \<lparr>b_sets = [\<lparr>player1Score = 11, player2Score = 5\<rparr>,
                \<lparr>player1Score = 7, player2Score = 7\<rparr>,
                \<lparr>player1Score = 11, player2Score = 9\<rparr>],
      winnerId = 1, status = ''Finalizado''\<rparr>"

text \<open>A pending double-elimination tournament and two registered players.\<close>

definition dobleStore :: store where
  "dobleStore =
     \<lparr>players = [playerA, playerB],
      tournaments = [\<lparr>t_id = 7, tipo = DobleEliminacion, t_estado = Pendiente, setsPorPartido = 5\<rparr>],
      matches = [], sets = [], tournamentResults = [], groups = [], matchSeq = 1\<rparr>"

text \<open>
  A first round of three matches, all finished, won by players 1, 3 and 5; and the same
  round with its third match still pending.
\<close>

definition wonMatch :: "nat \<Rightarrow> nat \<Rightarrow> nat \<Rightarrow> match_data" where
  "wonMatch tid a b =
     \<lparr>torneoId = tid, jugador1Id = a, jugador2Id = Some b, ronda = 1, fase = ''Principal'',
      ganadorId = Some a, setsJ1 = 2, setsJ2 = 0, estado = Finalizado\<rparr>"

definition threeWinnerStore :: store where
  "threeWinnerStore =
     \<lparr>players = [],
      tournaments = [\<lparr>t_id = 1, tipo = EliminacionDirecta, t_estado = EnCurso, setsPorPartido = 3\<rparr>],
      matches = [(1, wonMatch 1 1 2), (2, wonMatch 1 3 4), (3, wonMatch 1 5 6)],
      sets = [], tournamentResults = [], groups = [], matchSeq = 4\<rparr>"

definition openRoundStore :: store where
  "openRoundStore =
     threeWinnerStore\<lparr>matches := [(1, wonMatch 1 1 2), (2, wonMatch 1 3 4),
                                   (3, pendingMatch 1 5 6 1 ''Principal'')]\<rparr>"

text \<open>A submission 11-5, 11-7 for player 5, sent with status \<^verbatim>\<open>'Finalizado'\<close>.\<close>

definition roundClosingBody :: result_body where
  "roundClosingBody =
     \<lparr>b_sets = [\<lparr>player1Score = 11, player2Score = 5\<rparr>,
                \<lparr>player1Score = 11, player2Score = 7\<rparr>],
      winnerId = 5, status = ''Finalizado''\<rparr>"

section \<open>Notions used to state the properties\<close>

text \<open>The points a list of result rows holds for the player with a given id.\<close>

definition pointsFor :: "tournament_result list \<Rightarrow> nat \<Rightarrow> int" where
  "pointsFor rs i = sum_list (map puntosGanados (filter (\<lambda>r. jugadorId r = i) rs))"

text \<open>The number of matches of a tournament that record a given player as winner.\<close>

definition winCount :: "nat \<Rightarrow> store \<Rightarrow> nat \<Rightarrow> nat" where
  "winCount tid s w =
     length (filter (\<lambda>m. torneoId (snd m) = tid \<and> ganadorId (snd m) = Some w) (matches s))"

text \<open>
  Every winner recorded in a match of the tournament is a row of the players table (the
  routes never delete a player: a withdrawal only clears the \<^verbatim>\<open>activo\<close> flag).
\<close>

definition winnersRegistered :: "nat \<Rightarrow> store \<Rightarrow> bool" where
  "winnersRegistered tid s =
     (\<forall>m \<in> set (matches s). torneoId (snd m) = tid \<longrightarrow>
        (case ganadorId (snd m) of None \<Rightarrow> True | Some w \<Rightarrow> w \<in> p_id ` set (players s)))"

text \<open>The two-player tournament with its only match played: A has beaten B.\<close>

definition playedDuelStore :: store where
  "playedDuelStore = duelStore\<lparr>matches := [(1, wonMatch 1 1 2)]\<rparr>"

text \<open>
  A four-player elimination tournament with all three matches played: 1 beats 2 and
  3 beats 4 in round 1, then 1 beats 3 in round 2.
\<close>

definition fourPlayerStore :: store where
  "fourPlayerStore =
     \<lparr>players = [\<lparr>p_id = 1, nombre = ''A'', puntos = 10, ranking = 0\<rparr>,
                 \<lparr>p_id = 2, nombre = ''B'', puntos = 20, ranking = 0\<rparr>,
                 \<lparr>p_id = 3, nombre = ''C'', puntos = 30, ranking = 0\<rparr>,
                 \<lparr>p_id = 4, nombre = ''D'', puntos = 40, ranking = 0\<rparr>],
      tournaments = [\<lparr>t_id = 1, tipo = EliminacionDirecta, t_estado = EnCurso, setsPorPartido = 3\<rparr>],
      matches = [(1, wonMatch 1 1 2), (2, wonMatch 1 3 4), (3, (wonMatch 1 1 3)\<lparr>ronda := 2\<rparr>)],
      sets = [], tournamentResults = [], groups = [], matchSeq = 4\<rparr>"

text \<open>
  Five players, and Fisher-Yates draws that are all in range and shuffle the padded list
  \<open>[P1, P2, P3, P4, P5, BYE, BYE, BYE]\<close> into \<open>[P1, BYE, P2, BYE, P3, BYE, P4, P5]\<close>.
\<close>

definition fivePlayers :: "player list" where
  "fivePlayers =
     [\<lparr>p_id = 1, nombre = ''P1'', puntos = 0, ranking = 0\<rparr>,
      \<lparr>p_id = 2, nombre = ''P2'', puntos = 0, ranking = 0\<rparr>,
      \<lparr>p_id = 3, nombre = ''P3'', puntos = 0, ranking = 0\<rparr>,
      \<lparr>p_id = 4, nombre = ''P4'', puntos = 0, ranking = 0\<rparr>,
      \<lparr>p_id = 5, nombre = ''P5'', puntos = 0, ranking = 0\<rparr>]"

definition spreadDraws :: "nat \<Rightarrow> nat" where
  "spreadDraws i = (if i = 7 then 4 else if i = 6 then 3 else if i = 4 then 2
                    else if i = 2 then 1 else i)"

text \<open>
  What the reachable stores keep true of a match: a Finished match has a winner, and a
  recorded winner is player 1 or player 2 of the match.
\<close>

definition matchOk :: "match_data \<Rightarrow> bool" where
  "matchOk d =
     ((estado d = Finalizado \<longrightarrow> ganadorId d \<noteq> None)
      \<and> (case ganadorId d of
           None \<Rightarrow> True
         | Some w \<Rightarrow> w = jugador1Id d \<or> jugador2Id d = Some w))"

text \<open>
  The two-player tournament before its bracket is generated, and a submission 11-5, 11-7
  for player A that asks for the state \<^verbatim>\<open>'En curso'\<close>.
\<close>

definition newDuelStore :: store where
  "newDuelStore =
     \<lparr>players = [playerA, playerB],
      tournaments = [\<lparr>t_id = 1, tipo = EliminacionDirecta, t_estado = Pendiente, setsPorPartido = 3\<rparr>],
      matches = [], sets = [], tournamentResults = [], groups = [], matchSeq = 1\<rparr>"

definition enCursoBody :: result_body where
  "enCursoBody =
     \<lparr>b_sets = [\<lparr>player1Score = 11, player2Score = 5\<rparr>,
                \<lparr>player1Score = 11, player2Score = 7\<rparr>],
      winnerId = 1, status = ''En curso''\<rparr>"

definition storeOk :: "store \<Rightarrow> bool" where
  "storeOk s = (\<forall>m \<in> set (matches s). matchOk (snd m))"

text \<open>
  A match is settled when it records a winner only if it is Finished. A store is tracked
  by a set \<open>P\<close> of ids when its match ids are distinct and below the next id to be given,
  and every match outside \<open>P\<close> is settled.
\<close>

definition settled :: "match_data \<Rightarrow> bool" where
  "settled d = (ganadorId d \<noteq> None \<longrightarrow> estado d = Finalizado)"

definition tracked :: "nat set \<Rightarrow> store \<Rightarrow> bool" where
  "tracked P s =
     (distinct (map fst (matches s))
      \<and> (\<forall>m \<in> set (matches s). fst m < matchSeq s \<and> (fst m \<in> P \<or> settled (snd m))))"

text \<open>
  The circle method in closed form: the index, in the list the rounds start from, of the
  entry that stands at position \<open>j\<close> of an array of \<open>n\<close> entries after \<open>k\<close> rotations.
  Position 0 stays; the others move along a cycle of length \<open>n - 1\<close>.
\<close>

definition circlePos :: "nat \<Rightarrow> nat \<Rightarrow> nat \<Rightarrow> nat" where
  "circlePos n k j = (if j = 0 then 0 else 1 + (j - 1 + k) mod (n - 1))"

text \<open>The match, if any, of the pair \<open>i\<close> of a round: one iteration of the inner loop.\<close>

definition pairCell :: "player option list \<Rightarrow> nat \<Rightarrow> nat \<Rightarrow> nat \<Rightarrow> nat \<Rightarrow> match_data list" where
  "pairCell pw n rnd_no tid i =
     (case slot pw i of
        Some a \<Rightarrow> (case slot pw (n - 1 - i) of
                     Some b \<Rightarrow> [pendingMatch tid (p_id a) (p_id b) rnd_no ''Principal'']
                   | None \<Rightarrow> [])
      | None \<Rightarrow> [])"

text \<open>
  The schedule as a list of slots \<open>(k, i)\<close>, rotation count and pair number, in the order
  the two loops visit them; the two indices a slot pairs, and the match it yields.
\<close>

definition circleSlots :: "nat \<Rightarrow> (nat \<times> nat) list" where
  "circleSlots n = concat (map (\<lambda>k. map (Pair k) [0 ..< n div 2]) [0 ..< n - 1])"

definition circlePair :: "nat \<Rightarrow> nat \<times> nat \<Rightarrow> nat set" where
  "circlePair n ki = {circlePos n (fst ki) (snd ki), circlePos n (fst ki) (n - 1 - snd ki)}"

definition circleCell :: "player option list \<Rightarrow> nat \<Rightarrow> nat \<Rightarrow> nat \<times> nat \<Rightarrow> match_data list" where
  "circleCell pw n tid ki =
     (case pw ! circlePos n (fst ki) (snd ki) of
        Some a \<Rightarrow> (case pw ! circlePos n (fst ki) (n - 1 - snd ki) of
                     Some b \<Rightarrow> [pendingMatch tid (p_id a) (p_id b) (fst ki + 1) ''Principal'']
                   | None \<Rightarrow> [])
      | None \<Rightarrow> [])"

section \<open>What the operations leave untouched\<close>

lemma sets_setTournamentEstado [simp]: "sets (setTournamentEstado t e s) = sets s"
  by (simp add: setTournamentEstado_def)
lemma matches_setTournamentEstado [simp]: "matches (setTournamentEstado t e s) = matches s"
  by (simp add: setTournamentEstado_def)
lemma sets_updateRankings [simp]: "sets (updateRankings s) = sets s"
  by (simp add: updateRankings_def)
lemma matches_updateRankings [simp]: "matches (updateRankings s) = matches s"
  by (simp add: updateRankings_def)

lemma sets_finalizeTournament [simp]: "sets (finalizeTournament t w s) = sets s"
  by (simp add: finalizeTournament_def Let_def split: option.splits sum.splits)

lemma matches_finalizeTournament [simp]: "matches (finalizeTournament t w s) = matches s"
  by (simp add: finalizeTournament_def Let_def split: option.splits sum.splits)

lemma sets_createManyMatches [simp]: "sets (createManyMatches ds s) = sets s"
  by (simp add: createManyMatches_def)

lemma sets_generateNextMatch [simp]: "sets (generateNextMatch m s) = sets s"
  by (simp add: generateNextMatch_def Let_def)

lemma countSets_filter:
  "countSets ss (a, b) =
     (a + length (filter (\<lambda>st. player1Score st > player2Score st) ss),
      b + length (filter (\<lambda>st. player2Score st > player1Score st) ss))"
  by (induction ss arbitrary: a b) auto

lemma putResult_accepted:
  assumes "putResult mid body s = (Inr m', s')" and "findMatch mid s = Some m"
  shows "\<exists>st. statusEstado (status body) = Some st
           \<and> m' = (mid, (snd m)\<lparr>setsJ1 := fst (countSets (b_sets body) (0, 0)),
                               setsJ2 := snd (countSets (b_sets body) (0, 0)),
                               ganadorId := Some (winnerId body), estado := st\<rparr>)
           \<and> s' = generateNextMatch m'
                    (replaceSets mid (setsToCreate mid (snd m) (b_sets body))
                       (updateMatch mid (\<lambda>_. snd m') s))
           \<and> estado (snd m) \<noteq> Finalizado
           \<and> (winnerId body = jugador1Id (snd m) \<or> Some (winnerId body) = jugador2Id (snd m))"
  using assms
  by (auto simp: putResult_def Let_def split: option.splits if_splits prod.splits)

lemma setsToCreate_length [simp]: "length (setsToCreate mid d ss) = length ss"
  by (simp add: setsToCreate_def)

lemma setsToCreate_nth:
  "i < length ss \<Longrightarrow>
   setsToCreate mid d ss ! i =
     \<lparr>partidoId = mid, numeroSet = i + 1,
      puntosJ1 = player1Score (ss ! i), puntosJ2 = player2Score (ss ! i),
      set_ganadorId = (if player1Score (ss ! i) > player2Score (ss ! i)
                       then Some (jugador1Id d) else jugador2Id d)\<rparr>"
  by (simp add: setsToCreate_def)

lemma setsToCreate_partidoId: "r \<in> set (setsToCreate mid d ss) \<Longrightarrow> partidoId r = mid"
  by (auto simp: setsToCreate_def)

lemma replaceSets_rows:
  "filter (\<lambda>r. partidoId r = mid) (sets (replaceSets mid (setsToCreate mid d ss) s))
     = setsToCreate mid d ss"
proof -
  have "filter (\<lambda>r. partidoId r = mid) (filter (\<lambda>r. partidoId r \<noteq> mid) (sets s)) = []"
    by (induction "sets s") (auto simp: filter_empty_conv)
  moreover have "filter (\<lambda>r. partidoId r = mid) (setsToCreate mid d ss) = setsToCreate mid d ss"
    by (rule filter_True) (simp add: setsToCreate_partidoId)
  ultimately show ?thesis by (simp add: replaceSets_def)
qed

lemma find_map_t_estado:
  "find (\<lambda>t. t_id t = tid) ts = Some t \<Longrightarrow>
   find (\<lambda>t. t_id t = tid) (map (\<lambda>t. if t_id t = tid then t\<lparr>t_estado := e\<rparr> else t) ts)
     = Some (t\<lparr>t_estado := e\<rparr>)"
  by (induction ts) (auto split: if_splits)

lemma findTournament_setTournamentEstado:
  "findTournament tid s = Some t \<Longrightarrow>
   findTournament tid (setTournamentEstado tid e s) = Some (t\<lparr>t_estado := e\<rparr>)"
  by (simp add: findTournament_def setTournamentEstado_def find_map_t_estado)

section \<open>The next round\<close>

declare nextMatchesFrom.simps [simp del]

lemma nextMatchesFrom_length:
  "length (nextMatchesFrom w i tid r f) = (length w - i + 1) div 2"
proof (induction w i tid r f rule: nextMatchesFrom.induct)
  case (1 w i tid r f)
  show ?case
  proof (cases "i < length w")
    case True
    then have "length (nextMatchesFrom w i tid r f)
                 = Suc (length (nextMatchesFrom w (i + 2) tid r f))"
      by (subst nextMatchesFrom.simps) simp
    also have "\<dots> = Suc ((length w - (i + 2) + 1) div 2)"
      using 1 True by simp
    also have "\<dots> = (length w - i + 1) div 2"
      using True by presburger
    finally show ?thesis .
  next
    case False
    then show ?thesis by (subst nextMatchesFrom.simps) simp
  qed
qed

lemma nextMatchesFrom_nth_pending:
  "i + 2 * j + 1 < length w \<Longrightarrow>
   nextMatchesFrom w i tid r f ! j = pendingMatch tid (w ! (i + 2 * j)) (w ! (i + 2 * j + 1)) r f"
proof (induction j arbitrary: i)
  case 0
  then show ?case by (subst nextMatchesFrom.simps) simp
next
  case (Suc j)
  from Suc.prems have "i < length w" by simp
  then have "nextMatchesFrom w i tid r f ! Suc j = nextMatchesFrom w (i + 2) tid r f ! j"
    by (subst nextMatchesFrom.simps) simp
  also have "\<dots> = pendingMatch tid (w ! (i + 2 + 2 * j)) (w ! (i + 2 + 2 * j + 1)) r f"
    using Suc.prems by (intro Suc.IH) simp
  finally show ?case by (simp add: add.commute add.left_commute)
qed

lemma nextMatchesFrom_nth_bye:
  "i + 2 * j + 1 = length w \<Longrightarrow>
   nextMatchesFrom w i tid r f ! j = byeMatch tid (w ! (i + 2 * j)) r f"
proof (induction j arbitrary: i)
  case 0
  then show ?case by (subst nextMatchesFrom.simps) simp
next
  case (Suc j)
  from Suc.prems have "i < length w" by simp
  then have "nextMatchesFrom w i tid r f ! Suc j = nextMatchesFrom w (i + 2) tid r f ! j"
    by (subst nextMatchesFrom.simps) simp
  also have "\<dots> = byeMatch tid (w ! (i + 2 + 2 * j)) r f"
    using Suc.prems by (intro Suc.IH) simp
  finally show ?case by (simp add: add.commute add.left_commute)
qed

lemma roundMatches_sorted: "sorted (map fst (roundMatches cm s))"
  by (simp add: roundMatches_def)

lemma roundMatches_set:
  "set (roundMatches cm s) =
     {m \<in> set (matches s). torneoId (snd m) = torneoId (snd cm)
        \<and> ronda (snd m) = ronda (snd cm) \<and> fase (snd m) = fase (snd cm)}"
  by (auto simp: roundMatches_def)

lemma list2: "length xs = 2 \<Longrightarrow> xs = [xs ! 0, xs ! 1]"
  by (cases xs; cases "tl xs") auto

section \<open>Awarding and removing points\<close>

lemma incrementPuntos_Some:
  "i \<in> p_id ` set ps \<Longrightarrow>
   incrementPuntos i k ps = Some (map (\<lambda>p. if p_id p = i then p\<lparr>puntos := puntos p + k\<rparr> else p) ps)"
  by (auto simp: incrementPuntos_def)

lemma incrementPuntos_ids:
  "incrementPuntos i k ps = Some ps' \<Longrightarrow> map p_id ps' = map p_id ps"
  by (auto simp: incrementPuntos_def split: if_splits)

lemma incrementPuntos_puntos:
  "incrementPuntos i k ps = Some ps' \<Longrightarrow>
   map puntos ps' = map (\<lambda>p. puntos p + (if p_id p = i then k else 0)) ps"
  by (auto simp: incrementPuntos_def split: if_splits)

lemma pointsFor_Nil [simp]: "pointsFor [] i = 0"
  by (simp add: pointsFor_def)

lemma pointsFor_Cons:
  "pointsFor (r # rs) i = (if jugadorId r = i then puntosGanados r else 0) + pointsFor rs i"
  by (simp add: pointsFor_def)

lemma pointsFor_append: "pointsFor (xs @ ys) i = pointsFor xs i + pointsFor ys i"
  by (simp add: pointsFor_def)

lemma awardAll_completes:
  "\<forall>r \<in> set rs. jugadorId r \<in> p_id ` set ps \<Longrightarrow>
   \<exists>ps'. awardAll rs ps = Inr ps' \<and> map p_id ps' = map p_id ps
         \<and> map puntos ps' = map (\<lambda>p. puntos p + pointsFor rs (p_id p)) ps"
proof (induction rs arbitrary: ps)
  case Nil
  then show ?case by simp
next
  case (Cons r rs)
  then have reg: "jugadorId r \<in> p_id ` set ps" by simp
  let ?ps1 = "map (\<lambda>p. if p_id p = jugadorId r then p\<lparr>puntos := puntos p + puntosGanados r\<rparr> else p) ps"
  have inc: "incrementPuntos (jugadorId r) (puntosGanados r) ps = Some ?ps1"
    by (rule incrementPuntos_Some [OF reg])
  have ids: "map p_id ?ps1 = map p_id ps"
    by (rule incrementPuntos_ids [OF inc])
  then have "set (map p_id ?ps1) = set (map p_id ps)" by simp
  then have "p_id ` set ?ps1 = p_id ` set ps" by (simp only: set_map)
  with Cons.prems have "\<forall>r \<in> set rs. jugadorId r \<in> p_id ` set ?ps1" by simp
  from Cons.IH [OF this] obtain ps' where
    a: "awardAll rs ?ps1 = Inr ps'" and b: "map p_id ps' = map p_id ?ps1"
    and c: "map puntos ps' = map (\<lambda>p. puntos p + pointsFor rs (p_id p)) ?ps1"
    by blast
  have "map (\<lambda>p. puntos p + pointsFor rs (p_id p)) ?ps1
          = map (\<lambda>p. puntos p + pointsFor (r # rs) (p_id p)) ps"
    by (simp add: pointsFor_Cons)
  with a b c ids inc show ?case by simp
qed

lemma removePoints_completes:
  "\<forall>r \<in> set rs. jugadorId r \<in> p_id ` set ps \<Longrightarrow>
   \<exists>ps'. removePoints rs ps = Inr ps' \<and> map p_id ps' = map p_id ps
         \<and> map puntos ps' = map (\<lambda>p. puntos p - pointsFor rs (p_id p)) ps"
proof (induction rs arbitrary: ps)
  case Nil
  then show ?case by simp
next
  case (Cons r rs)
  then have reg: "jugadorId r \<in> p_id ` set ps" by simp
  let ?ps1 = "map (\<lambda>p. if p_id p = jugadorId r then p\<lparr>puntos := puntos p + - puntosGanados r\<rparr> else p) ps"
  have inc: "incrementPuntos (jugadorId r) (- puntosGanados r) ps = Some ?ps1"
    by (rule incrementPuntos_Some [OF reg])
  have ids: "map p_id ?ps1 = map p_id ps"
    by (rule incrementPuntos_ids [OF inc])
  then have "set (map p_id ?ps1) = set (map p_id ps)" by simp
  then have "p_id ` set ?ps1 = p_id ` set ps" by (simp only: set_map)
  with Cons.prems have "\<forall>r \<in> set rs. jugadorId r \<in> p_id ` set ?ps1" by simp
  from Cons.IH [OF this] obtain ps' where
    a: "removePoints rs ?ps1 = Inr ps'" and b: "map p_id ps' = map p_id ?ps1"
    and c: "map puntos ps' = map (\<lambda>p. puntos p - pointsFor rs (p_id p)) ?ps1"
    by blast
  have "map (\<lambda>p. puntos p - pointsFor rs (p_id p)) ?ps1
          = map (\<lambda>p. puntos p - pointsFor (r # rs) (p_id p)) ps"
    by (simp add: pointsFor_Cons)
  with a b c ids inc show ?case by simp
qed

lemma assignRanks_ids: "map p_id (assignRanks ks i ps) = map p_id ps"
  by (induction ks arbitrary: i ps) (simp_all add: comp_def if_distrib cong: if_cong)

lemma assignRanks_puntos: "map puntos (assignRanks ks i ps) = map puntos ps"
  by (induction ks arbitrary: i ps) (simp_all add: comp_def if_distrib cong: if_cong)

lemma updateRankings_ids [simp]: "map p_id (players (updateRankings s)) = map p_id (players s)"
  by (simp add: updateRankings_def assignRanks_ids)

lemma updateRankings_puntos [simp]: "map puntos (players (updateRankings s)) = map puntos (players s)"
  by (simp add: updateRankings_def assignRanks_puntos)

lemma updateRankings_others [simp]:
  "tournaments (updateRankings s) = tournaments s"
  "tournamentResults (updateRankings s) = tournamentResults s"
  "groups (updateRankings s) = groups s"
  "matchSeq (updateRankings s) = matchSeq s"
  by (simp_all add: updateRankings_def)

lemma setTournamentEstado_others [simp]:
  "players (setTournamentEstado t e s) = players s"
  "tournamentResults (setTournamentEstado t e s) = tournamentResults s"
  "groups (setTournamentEstado t e s) = groups s"
  "matchSeq (setTournamentEstado t e s) = matchSeq s"
  by (simp_all add: setTournamentEstado_def)

section \<open>Counting wins\<close>

lemma countWins_fold: "countWins ms acc = fold addWin (roundWinners ms) acc"
proof (induction ms arbitrary: acc)
  case Nil
  then show ?case by (simp add: roundWinners_def map_filter_simps)
next
  case (Cons m ms)
  show ?case
  proof (cases "ganadorId (snd m)")
    case None
    then show ?thesis using Cons by (simp add: roundWinners_def map_filter_simps)
  next
    case (Some w)
    then show ?thesis using Cons by (simp add: roundWinners_def map_filter_simps)
  qed
qed

lemma addWin_keys: "fst ` set (addWin w acc) = insert w (fst ` set acc)"
  by (induction w acc rule: addWin.induct) auto

lemma addWin_distinct: "distinct (map fst acc) \<Longrightarrow> distinct (map fst (addWin w acc))"
proof (induction acc)
  case Nil
  then show ?case by simp
next
  case (Cons kc acc)
  obtain k c where kc: "kc = (k, c)" by (cases kc)
  show ?case
  proof (cases "k = w")
    case True
    then show ?thesis using Cons.prems kc by simp
  next
    case False
    have "fst ` set (addWin w acc) = insert w (fst ` set acc)"
      by (rule addWin_keys)
    then show ?thesis using Cons False kc by auto
  qed
qed

lemma addWin_map_of:
  "map_of (addWin w acc) k =
     (if k = w then Some (case map_of acc w of None \<Rightarrow> 1 | Some c \<Rightarrow> c + 1) else map_of acc k)"
  by (induction w acc rule: addWin.induct) auto

lemma map_of_Some_key: "map_of acc k = Some x \<Longrightarrow> k \<in> fst ` set acc"
  by (metis map_of_eq_None_iff option.distinct(1))

lemma fold_addWin_keys: "fst ` set (fold addWin ws acc) = set ws \<union> fst ` set acc"
  by (induction ws arbitrary: acc) (auto simp: addWin_keys)

lemma fold_addWin_distinct:
  "distinct (map fst acc) \<Longrightarrow> distinct (map fst (fold addWin ws acc))"
  by (induction ws arbitrary: acc) (auto simp: addWin_distinct)

lemma fold_addWin_map_of:
  "map_of (fold addWin ws acc) k =
     (if k \<in> set ws \<union> fst ` set acc
      then Some (count_list ws k + (case map_of acc k of None \<Rightarrow> 0 | Some c \<Rightarrow> c))
      else None)"
proof (induction ws arbitrary: acc)
  case Nil
  then show ?case
    by (auto simp: map_of_eq_None_iff split: option.splits)
next
  case (Cons w ws)
  show ?case
    by (auto simp: Cons addWin_map_of addWin_keys map_of_eq_None_iff
             split: option.splits dest: map_of_Some_key)
qed

lemma countWins_entry:
  assumes "(k, c) \<in> set (countWins ms [])"
  shows "c = count_list (roundWinners ms) k \<and> k \<in> set (roundWinners ms)"
proof -
  have d: "distinct (map fst (countWins ms []))"
    by (simp add: countWins_fold fold_addWin_distinct)
  with assms have "map_of (countWins ms []) k = Some c"
    by simp
  then show ?thesis
    by (simp add: countWins_fold fold_addWin_map_of split: if_splits)
qed

lemma roundWinners_Cons:
  "roundWinners (m # ms) =
     (case ganadorId (snd m) of
        None \<Rightarrow> roundWinners ms
      | Some w \<Rightarrow> if w \<noteq> 0 then w # roundWinners ms else roundWinners ms)"
  by (simp add: roundWinners_def map_filter_simps split: option.splits)

lemma roundWinners_Nil [simp]: "roundWinners [] = []"
  by (simp add: roundWinners_def map_filter_simps)

lemma roundWinners_set:
  "set (roundWinners ms) = {w. w \<noteq> 0 \<and> (\<exists>m \<in> set ms. ganadorId (snd m) = Some w)}"
  by (induction ms) (auto simp: roundWinners_Cons split: option.splits)

lemma roundWinners_count:
  "k \<noteq> 0 \<Longrightarrow>
   count_list (roundWinners ms) k = length (filter (\<lambda>m. ganadorId (snd m) = Some k) ms)"
  by (induction ms) (auto simp: roundWinners_Cons split: option.splits)

lemma count_list_pos_iff: "0 < count_list xs x \<longleftrightarrow> x \<in> set xs"
  using count_list_0_iff [of xs x] by auto

lemma tournamentMatches_set:
  "set (tournamentMatches tid s) = {m \<in> set (matches s). torneoId (snd m) = tid}"
  by (auto simp: tournamentMatches_def)

lemma tournamentMatches_filter_length:
  "length (filter P (tournamentMatches tid s))
     = length (filter (\<lambda>m. torneoId (snd m) = tid \<and> P m) (matches s))"
  by (simp add: tournamentMatches_def filter_sort)

lemma positions_entry:
  assumes "(k, c) \<in> set (calculateFinalPositions (tournamentMatches tid s))"
  shows "k \<noteq> 0 \<and> c = winCount tid s k \<and> 0 < c"
proof -
  let ?ms = "tournamentMatches tid s"
  from assms have "(k, c) \<in> set (countWins ?ms [])"
    by (simp add: calculateFinalPositions_def)
  from countWins_entry [OF this]
  have c: "c = count_list (roundWinners ?ms) k" and k: "k \<in> set (roundWinners ?ms)"
    by simp_all
  from k have k0: "k \<noteq> 0"
    by (simp add: roundWinners_set)
  from k have "0 < count_list (roundWinners ?ms) k"
    by (simp add: count_list_pos_iff)
  moreover have "count_list (roundWinners ?ms) k = winCount tid s k"
    by (simp add: roundWinners_count [OF k0] tournamentMatches_filter_length winCount_def)
  ultimately show ?thesis using c k0 by simp
qed

lemma positions_keys:
  "fst ` set (calculateFinalPositions (tournamentMatches tid s))
     = {p. p \<noteq> 0 \<and> 0 < winCount tid s p}"
proof -
  let ?ms = "tournamentMatches tid s"
  have "fst ` set (calculateFinalPositions ?ms) = set (roundWinners ?ms)"
    by (simp add: calculateFinalPositions_def countWins_fold fold_addWin_keys)
  also have "\<dots> = {p. p \<noteq> 0 \<and> 0 < winCount tid s p}"
  proof (rule set_eqI)
    fix p
    show "p \<in> set (roundWinners ?ms) \<longleftrightarrow> p \<in> {p. p \<noteq> 0 \<and> 0 < winCount tid s p}"
    proof (cases "p = 0")
      case True
      then show ?thesis by (simp add: roundWinners_set)
    next
      case False
      have "p \<in> set (roundWinners ?ms) \<longleftrightarrow> 0 < count_list (roundWinners ?ms) p"
        by (simp add: count_list_pos_iff)
      also have "count_list (roundWinners ?ms) p = winCount tid s p"
        by (simp add: roundWinners_count [OF False] tournamentMatches_filter_length winCount_def)
      finally show ?thesis using False by simp
    qed
  qed
  finally show ?thesis .
qed

lemma positions_distinct:
  "distinct (map fst (calculateFinalPositions ms))"
proof -
  have "mset (map fst (calculateFinalPositions ms)) = mset (map fst (countWins ms []))"
    by (simp add: calculateFinalPositions_def)
  moreover have "distinct (map fst (countWins ms []))"
    by (simp add: countWins_fold fold_addWin_distinct)
  ultimately show ?thesis
    by (metis mset_eq_imp_distinct_iff)
qed

lemma positions_sorted:
  "sorted_wrt (\<lambda>a b. snd b \<le> snd a) (calculateFinalPositions ms)"
proof -
  have "sorted (map (\<lambda>kv. - int (snd kv)) (calculateFinalPositions ms))"
    by (simp add: calculateFinalPositions_def)
  then show ?thesis
    by (simp add: sorted_wrt_map sorted_wrt_iff_nth_less)
qed

lemma buildResults_length [simp]: "length (buildResults tid ps) = length ps"
  by (simp add: buildResults_def)

lemma buildResults_nth:
  "i < length ps \<Longrightarrow>
   buildResults tid ps ! i =
     \<lparr>r_torneoId = tid, jugadorId = fst (ps ! i), posicionFinal = i + 1,
      puntosGanados = calculatePoints (i + 1)\<rparr>"
  by (simp add: buildResults_def)

lemma buildResults_jugadorId: "map jugadorId (buildResults tid ps) = map fst ps"
  by (rule nth_equalityI) (simp_all add: buildResults_nth)

lemma buildResults_posicionFinal:
  "map posicionFinal (buildResults tid ps) = [1 ..< length ps + 1]"
proof (rule nth_equalityI)
  show "length (map posicionFinal (buildResults tid ps)) = length [1 ..< length ps + 1]"
    by (simp del: upt_Suc)
next
  fix i
  assume "i < length (map posicionFinal (buildResults tid ps))"
  then have i: "i < length ps" by simp
  then have "[1 ..< length ps + 1] ! i = 1 + i"
    by (intro nth_upt) simp
  with i show "map posicionFinal (buildResults tid ps) ! i = [1 ..< length ps + 1] ! i"
    by (simp add: buildResults_nth)
qed

lemma buildResults_row:
  "r \<in> set (buildResults tid ps) \<Longrightarrow>
   r_torneoId r = tid \<and> puntosGanados r = calculatePoints (posicionFinal r)"
  by (auto simp: in_set_conv_nth buildResults_nth)

section \<open>Finalization\<close>

lemma finalRows_registered:
  assumes "winnersRegistered tid s"
    and "r \<in> set (buildResults tid (calculateFinalPositions (tournamentMatches tid s)))"
  shows "jugadorId r \<in> p_id ` set (players s)"
proof -
  let ?pos = "calculateFinalPositions (tournamentMatches tid s)"
  from assms(2) have "jugadorId r \<in> set (map jugadorId (buildResults tid ?pos))"
    by simp
  then have "jugadorId r \<in> fst ` set ?pos"
    by (simp add: buildResults_jugadorId)
  then have "0 < winCount tid s (jugadorId r)"
    by (simp add: positions_keys)
  then have "filter (\<lambda>m. torneoId (snd m) = tid \<and> ganadorId (snd m) = Some (jugadorId r)) (matches s) \<noteq> []"
    by (simp add: winCount_def)
  then obtain m where "m \<in> set (matches s)" "torneoId (snd m) = tid"
    "ganadorId (snd m) = Some (jugadorId r)"
    by (auto simp: filter_empty_conv)
  with assms(1) show ?thesis
    by (auto simp: winnersRegistered_def)
qed

lemma finalizeTournament_completes:
  assumes "findTournament tid s = Some t" and "t_estado t \<noteq> Finalizado"
    and "winnersRegistered tid s"
    and "rows = buildResults tid (calculateFinalPositions (tournamentMatches tid s))"
  shows "\<exists>ps'. awardAll rows (players s) = Inr ps'
           \<and> map p_id ps' = map p_id (players s)
           \<and> map puntos ps' = map (\<lambda>p. puntos p + pointsFor rows (p_id p)) (players s)
           \<and> finalizeTournament tid w s =
               setTournamentEstado tid Finalizado
                 (updateRankings (s\<lparr>tournamentResults := tournamentResults s @ rows,
                                    players := ps'\<rparr>))"
proof -
  have "\<forall>r \<in> set rows. jugadorId r \<in> p_id ` set (players s)"
    using finalRows_registered [OF assms(3)] assms(4) by blast
  from awardAll_completes [OF this] obtain ps' where
    a: "awardAll rows (players s) = Inr ps'" and b: "map p_id ps' = map p_id (players s)"
    and c: "map puntos ps' = map (\<lambda>p. puntos p + pointsFor rows (p_id p)) (players s)"
    by blast
  have "finalizeTournament tid w s =
          setTournamentEstado tid Finalizado
            (updateRankings (s\<lparr>tournamentResults := tournamentResults s @ rows, players := ps'\<rparr>))"
    using assms(1,2) a by (simp add: finalizeTournament_def Let_def assms(4) [symmetric])
  with a b c show ?thesis by blast
qed

lemma finalizeTournament_noop:
  "findTournament tid s = Some t \<Longrightarrow> t_estado t = Finalizado \<Longrightarrow> finalizeTournament tid w s = s"
  by (simp add: finalizeTournament_def)

lemma finalizeTournament_missing:
  "findTournament tid s = None \<Longrightarrow> finalizeTournament tid w s = s"
  by (simp add: finalizeTournament_def)

lemma findTournament_cong:
  "tournaments s' = tournaments s \<Longrightarrow> findTournament tid s' = findTournament tid s"
  by (simp add: findTournament_def)

section \<open>Deleting a tournament\<close>

lemma deleteTournament_effect:
  assumes "findTournament tid s = Some t"
    and "filter (\<lambda>m. torneoId (snd m) = tid) (matches s) = [] \<or> forceTruthy force"
    and "\<forall>r \<in> set (tournamentResults s). r_torneoId r = tid \<longrightarrow> jugadorId r \<in> p_id ` set (players s)"
    and "rs = filter (\<lambda>r. r_torneoId r = tid) (tournamentResults s)"
  shows "fst (deleteTournament tid force s) = Inr (length rs, sum_list (map puntosGanados rs))
       \<and> tournamentResults (snd (deleteTournament tid force s))
           = filter (\<lambda>r. r_torneoId r \<noteq> tid) (tournamentResults s)
       \<and> map p_id (players (snd (deleteTournament tid force s))) = map p_id (players s)
       \<and> map puntos (players (snd (deleteTournament tid force s)))
           = map (\<lambda>p. puntos p - pointsFor rs (p_id p)) (players s)"
proof -
  have "\<forall>r \<in> set rs. jugadorId r \<in> p_id ` set (players s)"
    using assms(3,4) by simp
  from removePoints_completes [OF this] obtain ps' where
    a: "removePoints rs (players s) = Inr ps'" and b: "map p_id ps' = map p_id (players s)"
    and c: "map puntos ps' = map (\<lambda>p. puntos p - pointsFor rs (p_id p)) (players s)"
    by blast
  from assms(2) show ?thesis
  proof
    assume "filter (\<lambda>m. torneoId (snd m) = tid) (matches s) = []"
    then show ?thesis
      using assms(1) a b c by (simp add: deleteTournament_def Let_def assms(4) [symmetric])
  next
    assume "forceTruthy force"
    then show ?thesis
      using assms(1) a b c by (simp add: deleteTournament_def Let_def assms(4) [symmetric])
  qed
qed

lemma award_then_remove:
  assumes "map p_id ps1 = map p_id ps"
    and "map puntos ps1 = map (\<lambda>p. puntos p + f (p_id p)) ps"
  shows "map (\<lambda>p. puntos p - f (p_id p)) ps1 = map puntos ps"
proof (rule nth_equalityI)
  from assms(1) have len: "length ps1 = length ps"
    by (rule map_eq_imp_length_eq)
  then show "length (map (\<lambda>p. puntos p - f (p_id p)) ps1) = length (map puntos ps)"
    by simp
  fix i
  assume "i < length (map (\<lambda>p. puntos p - f (p_id p)) ps1)"
  then have i: "i < length ps1" "i < length ps" using len by simp_all
  from assms(1) i have "p_id (ps1 ! i) = p_id (ps ! i)"
    by (metis nth_map)
  moreover from assms(2) i have "puntos (ps1 ! i) = puntos (ps ! i) + f (p_id (ps ! i))"
    by (metis (no_types, lifting) nth_map)
  ultimately show "map (\<lambda>p. puntos p - f (p_id p)) ps1 ! i = map puntos ps ! i"
    using i by simp
qed

lemma finalize_then_delete:
  assumes "findTournament tid s0 = Some t0" and "t_estado t0 \<noteq> Finalizado"
    and "winnersRegistered tid s0"
    and "filter (\<lambda>r. r_torneoId r = tid) (tournamentResults s0) = []"
    and "filter (\<lambda>m. torneoId (snd m) = tid) (matches s0) = [] \<or> forceTruthy force"
  shows "map p_id (players (snd (deleteTournament tid force (finalizeTournament tid w s0))))
           = map p_id (players s0)
       \<and> map puntos (players (snd (deleteTournament tid force (finalizeTournament tid w s0))))
           = map puntos (players s0)
       \<and> tournamentResults (snd (deleteTournament tid force (finalizeTournament tid w s0)))
           = tournamentResults s0"
proof -
  let ?rows = "buildResults tid (calculateFinalPositions (tournamentMatches tid s0))"
  let ?s1 = "finalizeTournament tid w s0"
  from finalizeTournament_completes [OF assms(1,2,3) refl, of w] obtain ps' where
    ids: "map p_id ps' = map p_id (players s0)"
    and pts: "map puntos ps' = map (\<lambda>p. puntos p + pointsFor ?rows (p_id p)) (players s0)"
    and fin: "?s1 = setTournamentEstado tid Finalizado
                 (updateRankings (s0\<lparr>tournamentResults := tournamentResults s0 @ ?rows,
                                     players := ps'\<rparr>))"
    by blast
  have res1: "tournamentResults ?s1 = tournamentResults s0 @ ?rows"
    by (simp add: fin)
  have ids1: "map p_id (players ?s1) = map p_id (players s0)"
    by (simp add: fin ids)
  have pts1: "map puntos (players ?s1) = map (\<lambda>p. puntos p + pointsFor ?rows (p_id p)) (players s0)"
    by (simp add: fin pts)
  have m1: "matches ?s1 = matches s0"
    by simp
  have rowsT: "filter (\<lambda>r. r_torneoId r = tid) ?rows = ?rows"
    by (rule filter_True) (simp add: buildResults_row)
  have rowsF: "filter (\<lambda>r. r_torneoId r \<noteq> tid) ?rows = []"
    by (simp add: filter_empty_conv buildResults_row)
  have old: "filter (\<lambda>r. r_torneoId r \<noteq> tid) (tournamentResults s0) = tournamentResults s0"
    using assms(4) by (simp add: filter_empty_conv filter_id_conv)
  have rs1: "?rows = filter (\<lambda>r. r_torneoId r = tid) (tournamentResults ?s1)"
    by (simp add: res1 assms(4) rowsT)
  have "findTournament tid (updateRankings (s0\<lparr>tournamentResults := tournamentResults s0 @ ?rows,
                                     players := ps'\<rparr>)) = Some t0"
    using assms(1) by (simp add: findTournament_def)
  then have f1: "findTournament tid ?s1 = Some (t0\<lparr>t_estado := Finalizado\<rparr>)"
    by (simp add: fin findTournament_setTournamentEstado)
  have c1: "filter (\<lambda>m. torneoId (snd m) = tid) (matches ?s1) = [] \<or> forceTruthy force"
    using assms(5) by (simp only: m1)
  have "set (map p_id (players ?s1)) = set (map p_id (players s0))"
    by (simp only: ids1)
  then have idset: "p_id ` set (players ?s1) = p_id ` set (players s0)"
    by (simp only: set_map)
  have reg1: "\<forall>r \<in> set (tournamentResults ?s1). r_torneoId r = tid \<longrightarrow>
                 jugadorId r \<in> p_id ` set (players ?s1)"
  proof (intro ballI impI)
    fix r
    assume "r \<in> set (tournamentResults ?s1)" and t: "r_torneoId r = tid"
    then have "r \<in> set (tournamentResults s0) \<or> r \<in> set ?rows"
      by (simp add: res1)
    moreover have "r \<notin> set (tournamentResults s0)"
      using assms(4) t by (auto simp: filter_empty_conv)
    ultimately have "r \<in> set ?rows" by blast
    from finalRows_registered [OF assms(3) this] show "jugadorId r \<in> p_id ` set (players ?s1)"
      by (simp only: idset)
  qed
  from deleteTournament_effect [OF f1 c1 reg1 rs1]
  have d2: "tournamentResults (snd (deleteTournament tid force ?s1))
              = filter (\<lambda>r. r_torneoId r \<noteq> tid) (tournamentResults ?s1)"
    and d3: "map p_id (players (snd (deleteTournament tid force ?s1))) = map p_id (players ?s1)"
    and d4: "map puntos (players (snd (deleteTournament tid force ?s1)))
              = map (\<lambda>p. puntos p - pointsFor ?rows (p_id p)) (players ?s1)"
    by blast+
  have "map (\<lambda>p. puntos p - pointsFor ?rows (p_id p)) (players ?s1) = map puntos (players s0)"
    by (rule award_then_remove [OF ids1 pts1])
  with d4 have p: "map puntos (players (snd (deleteTournament tid force ?s1))) = map puntos (players s0)"
    by simp
  have r: "tournamentResults (snd (deleteTournament tid force ?s1)) = tournamentResults s0"
    by (simp only: d2 res1 filter_append rowsF old append_Nil2)
  from d3 ids1 p r show ?thesis by simp
qed

section \<open>The elimination bracket\<close>

declare numRounds.simps [simp del]

lemma numRounds_ceillog2: "numRounds n = ceillog2 n"
proof (induction n rule: numRounds.induct)
  case (1 n)
  show ?case
  proof (cases "n \<le> 1")
    case True
    then show ?thesis by (subst numRounds.simps) simp
  next
    case False
    then have "numRounds n = Suc (numRounds ((n + 1) div 2))"
      by (subst numRounds.simps) simp
    also have "\<dots> = Suc (ceillog2 ((n + 1) div 2))"
      using 1 False by simp
    also have "\<dots> = ceillog2 n"
      using False by (subst (2) ceillog2_rec) simp
    finally show ?thesis .
  qed
qed

lemma numRounds_ceiling_log: "0 < n \<Longrightarrow> int (numRounds n) = \<lceil>log 2 (real n)\<rceil>"
proof -
  assume n: "0 < n"
  then have "0 \<le> log 2 (real n)" by simp
  then have "0 \<le> \<lceil>log 2 (real n)\<rceil>" by linarith
  with n show ?thesis
    by (simp add: numRounds_ceillog2 ceillog2_def)
qed

lemma totalSlots_ge: "n \<le> totalSlots n"
  by (simp add: totalSlots_def numRounds_ceillog2 le_two_power_ceillog2)

lemma totalSlots_least: "n \<le> 2 ^ r \<Longrightarrow> totalSlots n \<le> 2 ^ r"
  by (cases "n = 0") (simp_all add: totalSlots_def numRounds_ceillog2 ceillog2_le_iff)

lemma totalSlots_power: "0 < n \<Longrightarrow> totalSlots n = 2 ^ numRounds n"
  by (simp add: totalSlots_def)

lemma numRounds_pos: "2 \<le> n \<Longrightarrow> 0 < numRounds n"
  by (subst numRounds.simps) simp

lemma totalSlots_even: "2 \<le> n \<Longrightarrow> even (totalSlots n)"
  using numRounds_pos [of n] by (simp add: totalSlots_def)

declare padByes.simps [simp del]

lemma padByes_replicate: "padByes ps slots = ps @ replicate (slots - length ps) None"
proof (induction ps slots rule: padByes.induct)
  case (1 ps slots)
  show ?case
  proof (cases "length ps < slots")
    case True
    then have "padByes ps slots = padByes (ps @ [None]) slots"
      by (subst padByes.simps) simp
    also have "\<dots> = (ps @ [None]) @ replicate (slots - length (ps @ [None])) None"
      using 1 True by simp
    also have "\<dots> = ps @ replicate (slots - length ps) None"
    proof -
      from True have "slots - length ps = Suc (slots - length (ps @ [None]))"
        by simp
      then show ?thesis
        by (simp add: replicate_app_Cons_same)
    qed
    finally show ?thesis .
  next
    case False
    then show ?thesis by (subst padByes.simps) simp
  qed
qed

lemma swap_length [simp]: "length (swap i j xs) = length xs"
  by (simp add: swap_def)

lemma swap_mset: "i < length xs \<Longrightarrow> j < length xs \<Longrightarrow> mset (swap i j xs) = mset xs"
  unfolding swap_def using mset_swap [of j xs i] by simp

lemma shuffleFrom_length [simp]: "length (shuffleFrom rnd k xs) = length xs"
  by (induction k arbitrary: xs) simp_all

lemma shuffleFrom_mset:
  "\<forall>i. rnd i \<le> i \<Longrightarrow> k < length xs \<or> k = 0 \<Longrightarrow> mset (shuffleFrom rnd k xs) = mset xs"
proof (induction k arbitrary: xs)
  case 0
  then show ?case by simp
next
  case (Suc k)
  then have k: "Suc k < length xs" by simp
  from Suc.prems(1) have "rnd (Suc k) \<le> Suc k" by blast
  with k have j: "rnd (Suc k) < length xs" by simp
  have "mset (shuffleFrom rnd k (swap (Suc k) (rnd (Suc k)) xs))
          = mset (swap (Suc k) (rnd (Suc k)) xs)"
    using k by (intro Suc.IH [OF Suc.prems(1)]) simp
  also have "\<dots> = mset xs"
    by (rule swap_mset [OF k j])
  finally show ?case by simp
qed

declare firstRoundFrom.simps [simp del]

lemma slot_nth: "i < length xs \<Longrightarrow> slot xs i = xs ! i"
  by (simp add: slot_def)

lemma jugador2Id_pendingMatch [simp]: "jugador2Id (pendingMatch tid a b r f) = Some b"
  by (simp add: pendingMatch_def)

lemma jugador2Id_byeMatch [simp]: "jugador2Id (byeMatch tid a r f) = None"
  by (simp add: byeMatch_def)

lemma firstRoundFrom_counts:
  assumes "slots = length xs" and "i \<le> slots" and "even (slots - i)"
    and "ms = firstRoundFrom xs i slots tid"
    and "pairs = length (filter (\<lambda>m. jugador2Id m \<noteq> None) ms)"
    and "byes = length (filter (\<lambda>m. jugador2Id m = None) ms)"
    and "somes = length (filter (\<lambda>x. x \<noteq> None) (drop i xs))"
  shows "2 * pairs + byes \<le> somes \<and> pairs + byes \<le> (slots - i) div 2
       \<and> somes \<le> pairs + (slots - i) div 2
       \<and> (None \<notin> set (drop i xs) \<longrightarrow> pairs = (slots - i) div 2 \<and> byes = 0)"
  using assms
proof (induction xs i slots tid arbitrary: ms pairs byes somes rule: firstRoundFrom.induct)
  case (1 ps i slots tid)
  show ?case
  proof (cases "i < slots")
    case False
    with "1.prems" have "i = slots" by simp
    then have "ms = []"
      using "1.prems"(4) by (subst (asm) firstRoundFrom.simps) simp
    with "1.prems" \<open>i = slots\<close> show ?thesis by simp
  next
    case True
    with "1.prems"(2,3) have i1: "i + 1 < slots"
      by presburger
    let ?rest = "firstRoundFrom ps (i + 2) slots tid"
    let ?rp = "length (filter (\<lambda>m. jugador2Id m \<noteq> None) ?rest)"
    let ?rb = "length (filter (\<lambda>m. jugador2Id m = None) ?rest)"
    let ?rs = "length (filter (\<lambda>x. x \<noteq> None) (drop (i + 2) ps))"
    have ev: "even (slots - (i + 2))"
      using "1.prems"(3) i1 by presburger
    have IH: "2 * ?rp + ?rb \<le> ?rs \<and> ?rp + ?rb \<le> (slots - (i + 2)) div 2
       \<and> ?rs \<le> ?rp + (slots - (i + 2)) div 2
       \<and> (None \<notin> set (drop (i + 2) ps) \<longrightarrow> ?rp = (slots - (i + 2)) div 2 \<and> ?rb = 0)"
      using i1 by (intro "1.IH" [OF True "1.prems"(1) _ ev refl refl refl refl]) simp
    have half: "(slots - i) div 2 = Suc ((slots - (i + 2)) div 2)"
      using i1 by presburger
    have dr: "drop i ps = ps ! i # ps ! (i + 1) # drop (i + 2) ps"
      using i1 "1.prems"(1)
      by (metis Cons_nth_drop_Suc Suc_eq_plus1 add_2_eq_Suc' add_lessD1)
    have sl: "slot ps i = ps ! i" "slot ps (i + 1) = ps ! (i + 1)"
      using i1 "1.prems"(1) by (simp_all add: slot_nth)
    have ms: "ms = (case ps ! i of
              Some a \<Rightarrow> (case ps ! (i + 1) of
                           Some b \<Rightarrow> [pendingMatch tid (p_id a) (p_id b) 1 ''Principal'']
                         | None \<Rightarrow> [byeMatch tid (p_id a) 1 ''Principal''])
            | None \<Rightarrow> []) @ ?rest"
      using True "1.prems"(4) sl
      by (subst (asm) firstRoundFrom.simps) (simp split: option.splits)
    show ?thesis
      using IH
      by (cases "ps ! i"; cases "ps ! (i + 1)")
         (simp_all add: "1.prems"(5,6,7) ms dr half)
  qed
qed

lemma firstRoundFrom_shape:
  "m \<in> set (firstRoundFrom xs i slots tid) \<Longrightarrow>
   (\<exists>a b. m = pendingMatch tid a b 1 ''Principal'') \<or> (\<exists>a. m = byeMatch tid a 1 ''Principal'')"
proof (induction xs i slots tid rule: firstRoundFrom.induct)
  case (1 ps i slots tid)
  show ?case
  proof (cases "i < slots")
    case True
    from "1.prems" True have
      "m \<in> set (case slot ps i of
              Some a \<Rightarrow> (case slot ps (i + 1) of
                           Some b \<Rightarrow> [pendingMatch tid (p_id a) (p_id b) 1 ''Principal'']
                         | None \<Rightarrow> [byeMatch tid (p_id a) 1 ''Principal''])
            | None \<Rightarrow> []) \<or> m \<in> set (firstRoundFrom ps (i + 2) slots tid)"
      by (subst (asm) firstRoundFrom.simps) simp
    then show ?thesis
    proof
      assume "m \<in> set (case slot ps i of
              Some a \<Rightarrow> (case slot ps (i + 1) of
                           Some b \<Rightarrow> [pendingMatch tid (p_id a) (p_id b) 1 ''Principal'']
                         | None \<Rightarrow> [byeMatch tid (p_id a) 1 ''Principal''])
            | None \<Rightarrow> [])"
      then show ?thesis by (auto split: option.splits)
    next
      assume "m \<in> set (firstRoundFrom ps (i + 2) slots tid)"
      with "1.IH" True show ?thesis by blast
    qed
  next
    case False
    with "1.prems" show ?thesis by (subst (asm) firstRoundFrom.simps) simp
  qed
qed

lemma firstRoundFrom_exact:
  assumes "slots = length xs" and "i \<le> slots" and "even (slots - i)"
    and "ms = firstRoundFrom xs i slots tid"
    and "pairs = length (filter (\<lambda>m. jugador2Id m \<noteq> None) ms)"
    and "byes = length (filter (\<lambda>m. jugador2Id m = None) ms)"
    and "somes = length (filter (\<lambda>x. x \<noteq> None) (drop i xs))"
    and "\<forall>j. i + 2 * j + 1 < slots \<longrightarrow> xs ! (i + 2 * j) = None \<longrightarrow> xs ! (i + 2 * j + 1) = None"
  shows "2 * pairs + byes = somes"
  using assms
proof (induction xs i slots tid arbitrary: ms pairs byes somes rule: firstRoundFrom.induct)
  case (1 ps i slots tid)
  show ?case
  proof (cases "i < slots")
    case False
    with "1.prems" have "i = slots" by simp
    then have "ms = []"
      using "1.prems"(4) by (subst (asm) firstRoundFrom.simps) simp
    with "1.prems" \<open>i = slots\<close> show ?thesis by simp
  next
    case True
    with "1.prems"(2,3) have i1: "i + 1 < slots"
      by presburger
    let ?rest = "firstRoundFrom ps (i + 2) slots tid"
    let ?rp = "length (filter (\<lambda>m. jugador2Id m \<noteq> None) ?rest)"
    let ?rb = "length (filter (\<lambda>m. jugador2Id m = None) ?rest)"
    let ?rs = "length (filter (\<lambda>x. x \<noteq> None) (drop (i + 2) ps))"
    have ev: "even (slots - (i + 2))"
      using "1.prems"(3) i1 by presburger
    have le: "i + 2 \<le> slots"
      using i1 by simp
    have nxt: "\<forall>j. i + 2 + 2 * j + 1 < slots \<longrightarrow> ps ! (i + 2 + 2 * j) = None
                   \<longrightarrow> ps ! (i + 2 + 2 * j + 1) = None"
    proof (intro allI impI)
      fix j assume a: "i + 2 + 2 * j + 1 < slots" "ps ! (i + 2 + 2 * j) = None"
      have e: "i + 2 + 2 * j = i + 2 * Suc j" by simp
      from "1.prems"(8) [rule_format, of "Suc j"] a show "ps ! (i + 2 + 2 * j + 1) = None"
        unfolding e by simp
    qed
    have IH: "2 * ?rp + ?rb = ?rs"
      by (rule "1.IH" [OF True "1.prems"(1) le ev refl refl refl refl nxt])
    have dr: "drop i ps = ps ! i # ps ! (i + 1) # drop (i + 2) ps"
      using i1 "1.prems"(1)
      by (metis Cons_nth_drop_Suc Suc_eq_plus1 add_2_eq_Suc' add_lessD1)
    have sl: "slot ps i = ps ! i" "slot ps (i + 1) = ps ! (i + 1)"
      using i1 "1.prems"(1) by (simp_all add: slot_nth)
    have ms: "ms = (case ps ! i of
              Some a \<Rightarrow> (case ps ! (i + 1) of
                           Some b \<Rightarrow> [pendingMatch tid (p_id a) (p_id b) 1 ''Principal'']
                         | None \<Rightarrow> [byeMatch tid (p_id a) 1 ''Principal''])
            | None \<Rightarrow> []) @ ?rest"
      using True "1.prems"(4) sl
      by (subst (asm) firstRoundFrom.simps) (simp split: option.splits)
    have first: "ps ! i = None \<longrightarrow> ps ! (i + 1) = None"
      using "1.prems"(8) [rule_format, of 0] i1 by simp
    show ?thesis
      using IH first
      by (cases "ps ! i"; cases "ps ! (i + 1)")
         (simp_all add: "1.prems"(5,6,7) ms dr)
  qed
qed

lemma firstRoundFrom_concat:
  "firstRoundFrom xs i slots tid =
     concat (map (\<lambda>j. case slot xs (i + 2 * j) of
                         None \<Rightarrow> []
                       | Some a \<Rightarrow>
                           (case slot xs (i + 2 * j + 1) of
                              Some b \<Rightarrow> [pendingMatch tid (p_id a) (p_id b) 1 ''Principal'']
                            | None \<Rightarrow> [byeMatch tid (p_id a) 1 ''Principal'']))
                 [0 ..< (slots + 1 - i) div 2])"
proof (induction xs i slots tid rule: firstRoundFrom.induct)
  case (1 ps i slots tid)
  define F where "F = (\<lambda>k. case slot ps k of
                    None \<Rightarrow> []
                  | Some a \<Rightarrow>
                      (case slot ps (k + 1) of
                         Some b \<Rightarrow> [pendingMatch tid (p_id a) (p_id b) 1 ''Principal'']
                       | None \<Rightarrow> [byeMatch tid (p_id a) 1 ''Principal'']))"
  show ?case
  proof (cases "i < slots")
    case False
    then have "(slots + 1 - i) div 2 = 0" by simp
    with False show ?thesis
      by (subst firstRoundFrom.simps) simp
  next
    case True
    define h where "h = (slots + 1 - (i + 2)) div 2"
    have half: "(slots + 1 - i) div 2 = Suc h"
      using True unfolding h_def by presburger
    have up: "[0 ..< Suc h] = 0 # map Suc [0 ..< h]"
      by (simp add: upt_conv_Cons map_Suc_upt del: upt_Suc)
    have "firstRoundFrom ps i slots tid = F i @ firstRoundFrom ps (i + 2) slots tid"
      using True unfolding F_def by (subst firstRoundFrom.simps) (simp split: option.splits)
    also have "firstRoundFrom ps (i + 2) slots tid
                 = concat (map (\<lambda>j. F (i + 2 + 2 * j)) [0 ..< h])"
      unfolding h_def F_def by (rule "1.IH" [OF True])
    also have "F i @ concat (map (\<lambda>j. F (i + 2 + 2 * j)) [0 ..< h])
                 = concat (map (\<lambda>j. F (i + 2 * j)) [0 ..< Suc h])"
      unfolding up by (simp add: comp_def del: upt_Suc)
    finally show ?thesis
      unfolding half F_def .
  qed
qed

lemma bye_count_arith:
  fixes p b n s :: nat
  assumes "2 * p + b = n" and "p + b \<le> s"
  shows "2 * p + b = n \<and> (n + 1) div 2 \<le> p + b \<and> p + b \<le> s
           \<and> (p + b = (n + 1) div 2 \<longleftrightarrow> b \<le> 1)"
  using assms by (auto; linarith)

lemma firstRound_filters:
  assumes "\<forall>m \<in> set ms. (\<exists>a b. m = pendingMatch tid a b 1 ''Principal'')
                        \<or> (\<exists>a. m = byeMatch tid a 1 ''Principal'')"
  shows "filter (\<lambda>m. jugador2Id m \<noteq> None \<and> estado m = Pendiente) ms
          = filter (\<lambda>m. jugador2Id m \<noteq> None) ms"
    and "filter (\<lambda>m. jugador2Id m = None \<and> estado m = Finalizado) ms
          = filter (\<lambda>m. jugador2Id m = None) ms"
proof -
  have k: "(jugador2Id m \<noteq> None \<longrightarrow> estado m = Pendiente)
         \<and> (jugador2Id m = None \<longrightarrow> estado m = Finalizado)" if "m \<in> set ms" for m
  proof -
    from assms that have "(\<exists>a b. m = pendingMatch tid a b 1 ''Principal'')
                        \<or> (\<exists>a. m = byeMatch tid a 1 ''Principal'')"
      by (rule bspec)
    then show ?thesis
      by (elim disjE exE) (simp_all add: pendingMatch_def byeMatch_def)
  qed
  show "filter (\<lambda>m. jugador2Id m \<noteq> None \<and> estado m = Pendiente) ms
          = filter (\<lambda>m. jugador2Id m \<noteq> None) ms"
    by (rule filter_cong [OF refl]) (use k in blast)
  show "filter (\<lambda>m. jugador2Id m = None \<and> estado m = Finalizado) ms
          = filter (\<lambda>m. jugador2Id m = None) ms"
    by (rule filter_cong [OF refl]) (use k in blast)
qed

lemma half_slot_index:
  assumes "even (t::nat)" and "length xs = t" and "j \<in> set [0 ..< t div 2]"
  shows "2 * j + 1 < length xs"
proof -
  from assms(1) obtain k where "t = 2 * k" by (elim evenE)
  with assms(3) show ?thesis by (simp add: assms(2))
qed

lemma half_slots_even:
  assumes "even (t::nat)"
  shows "(t + 1 - 0) div 2 = t div 2"
  using assms by (elim evenE) simp

lemma shuffledSlots_mset:
  assumes "\<forall>i. rnd i \<le> i"
  shows "mset (shuffledSlots rnd ps)
           = mset (map Some ps) + replicate_mset (totalSlots (length ps) - length ps) None"
proof -
  let ?padded = "padByes (map Some ps) (totalSlots (length ps))"
  have "length ?padded - 1 < length ?padded \<or> length ?padded - 1 = 0"
    by (cases "length ?padded") simp_all
  from shuffleFrom_mset [OF assms this]
  have "mset (shuffledSlots rnd ps) = mset ?padded"
    by (simp add: shuffledSlots_def Let_def)
  then show ?thesis
    by (simp add: padByes_replicate)
qed

lemma shuffledSlots_length: "length (shuffledSlots rnd ps) = totalSlots (length ps)"
  using totalSlots_ge [of "length ps"]
  by (simp add: shuffledSlots_def Let_def padByes_replicate)

lemma filter_length_mset:
  "mset xs = mset ys \<Longrightarrow> length (filter P xs) = length (filter P ys)"
  by (metis mset_filter size_mset)

lemma shuffledSlots_somes:
  assumes "\<forall>i. rnd i \<le> i"
  shows "length (filter (\<lambda>x. x \<noteq> None) (shuffledSlots rnd ps)) = length ps"
proof -
  let ?k = "totalSlots (length ps) - length ps"
  have "mset (shuffledSlots rnd ps) = mset (map Some ps @ replicate ?k None)"
    by (simp add: shuffledSlots_mset [OF assms])
  then have "length (filter (\<lambda>x. x \<noteq> None) (shuffledSlots rnd ps))
               = length (filter (\<lambda>x. x \<noteq> None) (map Some ps @ replicate ?k None))"
    by (rule filter_length_mset)
  also have "\<dots> = length ps"
    by (simp add: filter_map comp_def)
  finally show ?thesis .
qed

lemma shuffledSlots_full:
  assumes "\<forall>i. rnd i \<le> i" and "totalSlots (length ps) = length ps"
  shows "None \<notin> set (shuffledSlots rnd ps)"
proof -
  have "mset (shuffledSlots rnd ps) = mset (map Some ps)"
    by (simp add: shuffledSlots_mset [OF assms(1)] assms(2))
  then have "set (shuffledSlots rnd ps) = set (map Some ps)"
    by (rule mset_eq_setD)
  then show ?thesis by auto
qed

section \<open>What every reachable store satisfies\<close>

declare roundPairsFrom.simps [simp del] roundsFrom.simps [simp del]
  manualRoundFrom.simps [simp del] shiftFrom.simps [simp del]

lemma matchOk_pendingMatch [simp]: "matchOk (pendingMatch tid a b r f)"
  by (simp add: matchOk_def pendingMatch_def)

lemma matchOk_byeMatch [simp]: "matchOk (byeMatch tid a r f)"
  by (simp add: matchOk_def byeMatch_def)

lemma firstRoundFrom_ok: "m \<in> set (firstRoundFrom xs i slots tid) \<Longrightarrow> matchOk m"
  using firstRoundFrom_shape [of m xs i slots tid] by auto

lemma nextMatchesFrom_ok: "m \<in> set (nextMatchesFrom w i tid r f) \<Longrightarrow> matchOk m"
proof (induction w i tid r f rule: nextMatchesFrom.induct)
  case (1 winners i tid nextRound f)
  show ?case
  proof (cases "i < length winners")
    case True
    with "1.prems" have
      "m = (if i + 1 < length winners
            then pendingMatch tid (winners ! i) (winners ! (i + 1)) nextRound f
            else byeMatch tid (winners ! i) nextRound f)
       \<or> m \<in> set (nextMatchesFrom winners (i + 2) tid nextRound f)"
      by (subst (asm) nextMatchesFrom.simps) simp
    with "1.IH" True show ?thesis by auto
  next
    case False
    with "1.prems" show ?thesis by (subst (asm) nextMatchesFrom.simps) simp
  qed
qed

lemma roundPairsFrom_ok: "m \<in> set (roundPairsFrom pw i n r tid) \<Longrightarrow> matchOk m"
proof (induction pw i n r tid rule: roundPairsFrom.induct)
  case (1 pw i n r tid)
  show ?case
  proof (cases "2 * i < n")
    case True
    with "1.prems" have
      "m \<in> set (case slot pw i of
              Some a \<Rightarrow> (case slot pw (n - 1 - i) of
                           Some b \<Rightarrow> [pendingMatch tid (p_id a) (p_id b) r ''Principal'']
                         | None \<Rightarrow> [])
            | None \<Rightarrow> [])
       \<or> m \<in> set (roundPairsFrom pw (i + 1) n r tid)"
      by (subst (asm) roundPairsFrom.simps) simp
    with "1.IH" True show ?thesis by (auto split: option.splits)
  next
    case False
    with "1.prems" show ?thesis by (subst (asm) roundPairsFrom.simps) simp
  qed
qed

lemma roundsFrom_ok: "m \<in> set (roundsFrom pw r n tid) \<Longrightarrow> matchOk m"
proof (induction pw r n tid rule: roundsFrom.induct)
  case (1 pw r n tid)
  show ?case
  proof (cases "r + 1 \<le> n")
    case True
    with "1.prems" have
      "m \<in> set (roundPairsFrom pw 0 n r tid)
       \<or> m \<in> set (roundsFrom (rotatePlayers pw n) (r + 1) n tid)"
      by (subst (asm) roundsFrom.simps) simp
    with "1.IH" True roundPairsFrom_ok show ?thesis by blast
  next
    case False
    with "1.prems" show ?thesis by (subst (asm) roundsFrom.simps) simp
  qed
qed

lemma manualRoundFrom_ok: "m \<in> set (manualRoundFrom xs i slots tid) \<Longrightarrow> matchOk m"
proof (induction xs i slots tid rule: manualRoundFrom.induct)
  case (1 positions i slots tid)
  show ?case
  proof (cases "i < slots")
    case True
    with "1.prems" have
      "m \<in> set (case slot positions i of
              Some a \<Rightarrow> (case slot positions (i + 1) of
                           Some b \<Rightarrow> [pendingMatch tid (p_id a) (p_id b) 1 ''Principal'']
                         | None \<Rightarrow> [])
            | None \<Rightarrow> [])
       \<or> m \<in> set (manualRoundFrom positions (i + 2) slots tid)"
      by (subst (asm) manualRoundFrom.simps) simp
    with "1.IH" True show ?thesis by (auto split: option.splits)
  next
    case False
    with "1.prems" show ?thesis by (subst (asm) manualRoundFrom.simps) simp
  qed
qed


lemma storeOk_cong: "matches s' = matches s \<Longrightarrow> storeOk s \<Longrightarrow> storeOk s'"
  by (simp add: storeOk_def)

lemma storeOk_createManyMatches:
  "storeOk s \<Longrightarrow> \<forall>d \<in> set ds. matchOk d \<Longrightarrow> storeOk (createManyMatches ds s)"
  by (auto simp: storeOk_def createManyMatches_def dest: set_zip_rightD)

lemma storeOk_generateNextMatch: "storeOk s \<Longrightarrow> storeOk (generateNextMatch cm s)"
  by (auto simp: generateNextMatch_def Let_def nextMatchesFrom_ok
           intro: storeOk_createManyMatches storeOk_cong [of "finalizeTournament _ _ s" s])

lemma storeOk_updateMatch:
  "storeOk s \<Longrightarrow> (\<And>d. matchOk d \<Longrightarrow> matchOk (f d)) \<Longrightarrow> storeOk (updateMatch mid f s)"
  by (auto simp: storeOk_def updateMatch_def)

lemma matches_replaceSets [simp]: "matches (replaceSets mid rows s) = matches s"
  by (simp add: replaceSets_def)

lemma findMatch_mem: "findMatch mid s = Some m \<Longrightarrow> m \<in> set (matches s) \<and> fst m = mid"
  by (auto simp: findMatch_def find_Some_iff)

lemma storeOk_putResult: "storeOk s \<Longrightarrow> storeOk (snd (putResult mid body s))"
proof (cases "putResult mid body s")
  case (Pair res s')
  assume ok: "storeOk s"
  show ?thesis
  proof (cases res)
    case (Inl e)
    with Pair have "s' = s"
      by (auto simp: putResult_def Let_def split: option.splits if_splits prod.splits)
    with ok Pair show ?thesis by simp
  next
    case (Inr m')
    with Pair have "findMatch mid s \<noteq> None"
      by (auto simp: putResult_def Let_def split: option.splits)
    then obtain m where m: "findMatch mid s = Some m" by blast
    from putResult_accepted [OF Pair [unfolded Inr] m] obtain st where
      m': "m' = (mid, (snd m)\<lparr>setsJ1 := fst (countSets (b_sets body) (0, 0)),
                               setsJ2 := snd (countSets (b_sets body) (0, 0)),
                               ganadorId := Some (winnerId body), estado := st\<rparr>)"
      and s': "s' = generateNextMatch m'
                    (replaceSets mid (setsToCreate mid (snd m) (b_sets body))
                       (updateMatch mid (\<lambda>_. snd m') s))"
      and w: "winnerId body = jugador1Id (snd m) \<or> Some (winnerId body) = jugador2Id (snd m)"
      by blast
    have "matchOk (snd m')"
      using w by (auto simp: m' matchOk_def)
    then have "storeOk (updateMatch mid (\<lambda>_. snd m') s)"
      using ok by (intro storeOk_updateMatch)
    then have "storeOk (replaceSets mid (setsToCreate mid (snd m) (b_sets body))
                       (updateMatch mid (\<lambda>_. snd m') s))"
      by (rule storeOk_cong [rotated]) simp
    then have "storeOk s'"
      unfolding s' by (rule storeOk_generateNextMatch)
    with Pair show ?thesis by simp
  qed
qed

lemma storeOk_startMatch: "storeOk s \<Longrightarrow> storeOk (snd (startMatch mid s))"
  by (auto simp: startMatch_def matchOk_def split: option.splits intro!: storeOk_updateMatch)

lemma storeOk_deleteTournament: "storeOk s \<Longrightarrow> storeOk (snd (deleteTournament tid force s))"
  by (auto simp: deleteTournament_def Let_def storeOk_def split: option.splits sum.splits)

lemma generateRoundRobinBracket_ok: "m \<in> set (generateRoundRobinBracket ps tid) \<Longrightarrow> matchOk m"
  by (auto simp: generateRoundRobinBracket_def dest: roundsFrom_ok)

lemma generateEliminationBracket_ok: "m \<in> set (generateEliminationBracket rnd ps tid) \<Longrightarrow> matchOk m"
  by (auto simp: generateEliminationBracket_def dest: firstRoundFrom_ok)

lemma storeOk_setTournamentEstado: "storeOk s \<Longrightarrow> storeOk (setTournamentEstado tid e s)"
  by (simp add: storeOk_def)

lemma storeOk_generateBracket:
  "storeOk s \<Longrightarrow> storeOk (snd (generateBracket rnd shuf tid playerIds s))"
  by (auto simp: generateBracket_def Let_def split: option.splits
           intro!: storeOk_setTournamentEstado storeOk_createManyMatches
           dest: generateRoundRobinBracket_ok generateEliminationBracket_ok
           elim: storeOk_cong [rotated])

lemma storeOk_manualSeeding:
  "storeOk s \<Longrightarrow> storeOk (snd (manualSeeding tid seeded s))"
  by (auto simp: manualSeeding_def Let_def split: option.splits
           intro!: storeOk_setTournamentEstado storeOk_createManyMatches
           dest: generateRoundRobinBracket_ok manualRoundFrom_ok)

lemma reachable_storeOk: "reachable P s \<Longrightarrow> storeOk s"
proof (induction rule: reachable.induct)
  case (reach_init s)
  then show ?case by (simp add: storeOk_def)
next
  case (reach_rejected P s mid body e s')
  from storeOk_putResult [OF reach_rejected.IH, of mid body] reach_rejected.hyps(2)
  show ?case by simp
next
  case (reach_finished P s mid body m' s')
  from storeOk_putResult [OF reach_finished.IH, of mid body] reach_finished.hyps(2)
  show ?case by simp
next
  case (reach_unfinished P s mid body m' s')
  from storeOk_putResult [OF reach_unfinished.IH, of mid body] reach_unfinished.hyps(2)
  show ?case by simp
next
  case (reach_other P s s')
  then show ?case by (simp add: storeOk_def)
qed (simp_all add: storeOk_generateBracket storeOk_manualSeeding
       storeOk_startMatch storeOk_deleteTournament)

section \<open>Which matches record a winner before they are Finished\<close>

lemma settled_pendingMatch [simp]: "settled (pendingMatch tid a b r f)"
  by (simp add: settled_def pendingMatch_def)

lemma settled_byeMatch [simp]: "settled (byeMatch tid a r f)"
  by (simp add: settled_def byeMatch_def)

lemma firstRoundFrom_settled: "m \<in> set (firstRoundFrom xs i slots tid) \<Longrightarrow> settled m"
  using firstRoundFrom_shape [of m xs i slots tid] by auto

lemma nextMatchesFrom_settled: "m \<in> set (nextMatchesFrom w i tid r f) \<Longrightarrow> settled m"
proof (induction w i tid r f rule: nextMatchesFrom.induct)
  case (1 winners i tid nextRound f)
  show ?case
  proof (cases "i < length winners")
    case True
    with "1.prems" have
      "m = (if i + 1 < length winners
            then pendingMatch tid (winners ! i) (winners ! (i + 1)) nextRound f
            else byeMatch tid (winners ! i) nextRound f)
       \<or> m \<in> set (nextMatchesFrom winners (i + 2) tid nextRound f)"
      by (subst (asm) nextMatchesFrom.simps) simp
    with "1.IH" True show ?thesis by auto
  next
    case False
    with "1.prems" show ?thesis by (subst (asm) nextMatchesFrom.simps) simp
  qed
qed

lemma roundPairsFrom_settled: "m \<in> set (roundPairsFrom pw i n r tid) \<Longrightarrow> settled m"
proof (induction pw i n r tid rule: roundPairsFrom.induct)
  case (1 pw i n r tid)
  show ?case
  proof (cases "2 * i < n")
    case True
    with "1.prems" have
      "m \<in> set (case slot pw i of
              Some a \<Rightarrow> (case slot pw (n - 1 - i) of
                           Some b \<Rightarrow> [pendingMatch tid (p_id a) (p_id b) r ''Principal'']
                         | None \<Rightarrow> [])
            | None \<Rightarrow> [])
       \<or> m \<in> set (roundPairsFrom pw (i + 1) n r tid)"
      by (subst (asm) roundPairsFrom.simps) simp
    with "1.IH" True show ?thesis by (auto split: option.splits)
  next
    case False
    with "1.prems" show ?thesis by (subst (asm) roundPairsFrom.simps) simp
  qed
qed

lemma roundsFrom_settled: "m \<in> set (roundsFrom pw r n tid) \<Longrightarrow> settled m"
proof (induction pw r n tid rule: roundsFrom.induct)
  case (1 pw r n tid)
  show ?case
  proof (cases "r + 1 \<le> n")
    case True
    with "1.prems" have
      "m \<in> set (roundPairsFrom pw 0 n r tid)
       \<or> m \<in> set (roundsFrom (rotatePlayers pw n) (r + 1) n tid)"
      by (subst (asm) roundsFrom.simps) simp
    with "1.IH" True roundPairsFrom_settled show ?thesis by blast
  next
    case False
    with "1.prems" show ?thesis by (subst (asm) roundsFrom.simps) simp
  qed
qed

lemma manualRoundFrom_settled: "m \<in> set (manualRoundFrom xs i slots tid) \<Longrightarrow> settled m"
proof (induction xs i slots tid rule: manualRoundFrom.induct)
  case (1 positions i slots tid)
  show ?case
  proof (cases "i < slots")
    case True
    with "1.prems" have
      "m \<in> set (case slot positions i of
              Some a \<Rightarrow> (case slot positions (i + 1) of
                           Some b \<Rightarrow> [pendingMatch tid (p_id a) (p_id b) 1 ''Principal'']
                         | None \<Rightarrow> [])
            | None \<Rightarrow> [])
       \<or> m \<in> set (manualRoundFrom positions (i + 2) slots tid)"
      by (subst (asm) manualRoundFrom.simps) simp
    with "1.IH" True show ?thesis by (auto split: option.splits)
  next
    case False
    with "1.prems" show ?thesis by (subst (asm) manualRoundFrom.simps) simp
  qed
qed

lemma generateRoundRobinBracket_settled:
  "m \<in> set (generateRoundRobinBracket ps tid) \<Longrightarrow> settled m"
  by (auto simp: generateRoundRobinBracket_def dest: roundsFrom_settled)

lemma generateEliminationBracket_settled:
  "m \<in> set (generateEliminationBracket rnd ps tid) \<Longrightarrow> settled m"
  by (auto simp: generateEliminationBracket_def dest: firstRoundFrom_settled)

lemma matchSeq_finalizeTournament [simp]: "matchSeq (finalizeTournament t w s) = matchSeq s"
  by (simp add: finalizeTournament_def Let_def split: option.splits sum.splits)

lemma tracked_cong:
  "matches s' = matches s \<Longrightarrow> matchSeq s' = matchSeq s \<Longrightarrow> tracked P s \<Longrightarrow> tracked P s'"
  by (simp add: tracked_def)

lemma tracked_mono: "tracked P s \<Longrightarrow> P \<subseteq> Q \<Longrightarrow> tracked Q s"
  by (auto simp: tracked_def)

lemma tracked_createManyMatches:
  assumes "tracked P s" and "\<forall>d \<in> set ds. settled d"
  shows "tracked P (createManyMatches ds s)"
proof -
  define new where "new = zip [matchSeq s ..< matchSeq s + length ds] ds"
  have ids: "map fst new = [matchSeq s ..< matchSeq s + length ds]"
    unfolding new_def by (rule map_fst_zip) simp
  have old: "\<forall>m \<in> set (matches s). fst m < matchSeq s"
    using assms(1) by (simp add: tracked_def)
  have disj: "set (map fst (matches s)) \<inter> set (map fst new) = {}"
    unfolding ids using old by fastforce
  have d: "distinct (map fst (matches s @ new))"
    using assms(1) disj by (simp add: tracked_def ids)
  have n: "fst m < matchSeq s + length ds \<and> settled (snd m)" if "m \<in> set new" for m
  proof -
    have "fst m \<in> set (map fst new)"
      using that by simp
    then have "fst m < matchSeq s + length ds"
      unfolding ids by simp
    moreover have "snd m \<in> set ds"
      using that unfolding new_def by (metis prod.collapse set_zip_rightD)
    ultimately show ?thesis
      using assms(2) by simp
  qed
  have o: "fst m < matchSeq s + length ds \<and> (fst m \<in> P \<or> settled (snd m))"
    if "m \<in> set (matches s)" for m
    using assms(1) that by (fastforce simp: tracked_def)
  have ms: "matches (createManyMatches ds s) = matches s @ new"
    and sq: "matchSeq (createManyMatches ds s) = matchSeq s + length ds"
    by (simp_all add: createManyMatches_def new_def)
  show ?thesis
    unfolding tracked_def ms sq using d n o by auto
qed

lemma tracked_generateNextMatch: "tracked P s \<Longrightarrow> tracked P (generateNextMatch cm s)"
  by (auto simp: generateNextMatch_def Let_def nextMatchesFrom_settled
           intro: tracked_createManyMatches tracked_cong [of "finalizeTournament _ _ s" s])

lemma tracked_updateMatch:
  assumes "tracked P s"
    and "\<And>m. m \<in> set (matches s) \<Longrightarrow> fst m = mid \<Longrightarrow> mid \<in> P \<or> settled (f (snd m))"
  shows "tracked P (updateMatch mid f s)"
proof -
  have ids: "map fst (matches (updateMatch mid f s)) = map fst (matches s)"
    by (simp add: updateMatch_def comp_def if_distrib [of fst] cong: if_cong)
  have sq: "matchSeq (updateMatch mid f s) = matchSeq s"
    by (simp add: updateMatch_def)
  have "fst m' < matchSeq s \<and> (fst m' \<in> P \<or> settled (snd m'))"
    if "m' \<in> set (matches (updateMatch mid f s))" for m'
  proof -
    from that have "m' \<in> (\<lambda>m. if fst m = mid then (fst m, f (snd m)) else m) ` set (matches s)"
      by (simp add: updateMatch_def)
    then obtain m where m: "m \<in> set (matches s)"
      and m': "m' = (if fst m = mid then (fst m, f (snd m)) else m)"
      by (rule imageE)
    from assms(1) m have b: "fst m < matchSeq s" and c: "fst m \<in> P \<or> settled (snd m)"
      by (simp_all add: tracked_def)
    show ?thesis
    proof (cases "fst m = mid")
      case True
      with assms(2) [OF m True] b show ?thesis
        by (auto simp: m')
    next
      case False
      with b c show ?thesis by (simp add: m')
    qed
  qed
  with assms(1) show ?thesis
    unfolding tracked_def ids sq by blast
qed

lemma putResult_rejected: "putResult mid body s = (Inl e, s') \<Longrightarrow> s' = s"
  by (auto simp: putResult_def Let_def split: option.splits if_splits prod.splits)

lemma putResult_found: "putResult mid body s = (Inr m', s') \<Longrightarrow> \<exists>m. findMatch mid s = Some m"
  by (auto simp: putResult_def Let_def split: option.splits)

lemma statusEstado_cases:
  "statusEstado st = Some e \<Longrightarrow>
     (st = ''Pendiente'' \<and> e = Pendiente) \<or> (st = ''En curso'' \<and> e = EnCurso)
     \<or> (st = ''Finalizado'' \<and> e = Finalizado)"
  by (auto simp: statusEstado_def split: if_splits)

lemma tracked_putResult:
  assumes "tracked P s" and "putResult mid body s = (Inr m', s')"
  shows "status body = ''Finalizado'' \<Longrightarrow> tracked P s'" and "tracked (insert mid P) s'"
proof -
  from putResult_found [OF assms(2)] obtain m where m: "findMatch mid s = Some m" by blast
  from putResult_accepted [OF assms(2) m] obtain st where
    st: "statusEstado (status body) = Some st"
    and m': "m' = (mid, (snd m)\<lparr>setsJ1 := fst (countSets (b_sets body) (0, 0)),
                               setsJ2 := snd (countSets (b_sets body) (0, 0)),
                               ganadorId := Some (winnerId body), estado := st\<rparr>)"
    and s': "s' = generateNextMatch m'
                  (replaceSets mid (setsToCreate mid (snd m) (b_sets body))
                     (updateMatch mid (\<lambda>_. snd m') s))"
    by blast
  have step: "tracked Q s'"
    if q: "tracked Q s" and f: "mid \<in> Q \<or> settled (snd m')" for Q
  proof -
    have "tracked Q (updateMatch mid (\<lambda>_. snd m') s)"
      using q f by (intro tracked_updateMatch) simp_all
    then have "tracked Q (replaceSets mid (setsToCreate mid (snd m) (b_sets body))
                       (updateMatch mid (\<lambda>_. snd m') s))"
      by (rule tracked_cong [rotated 2]) (simp_all add: replaceSets_def)
    then show ?thesis
      unfolding s' by (rule tracked_generateNextMatch)
  qed
  show "tracked (insert mid P) s'"
    by (rule step) (use assms(1) in \<open>auto intro: tracked_mono\<close>)
  assume "status body = ''Finalizado''"
  with st have "st = Finalizado"
    by (simp add: statusEstado_def)
  then have "settled (snd m')"
    by (simp add: m' settled_def)
  with assms(1) show "tracked P s'"
    by (intro step) simp_all
qed

lemma tracked_startMatch: "tracked P s \<Longrightarrow> tracked P (snd (startMatch mid s))"
proof (cases "findMatch mid s")
  case None
  assume "tracked P s"
  with None show ?thesis by (simp add: startMatch_def)
next
  case (Some m)
  assume t: "tracked P s"
  show ?thesis
  proof (cases "estado (snd m) = Pendiente")
    case False
    with Some t show ?thesis by (simp add: startMatch_def)
  next
    case True
    have "tracked P (updateMatch mid (\<lambda>d. d\<lparr>estado := EnCurso\<rparr>) s)"
    proof (rule tracked_updateMatch [OF t])
      fix m2 assume m2: "m2 \<in> set (matches s)" "fst m2 = mid"
      from findMatch_mem [OF Some] have m: "m \<in> set (matches s)" "fst m = mid"
        by simp_all
      from t have "distinct (map fst (matches s))"
        by (simp add: tracked_def)
      with m m2 have "m2 = m"
        by (metis eq_key_imp_eq_value prod.collapse)
      from t m(1) have "fst m \<in> P \<or> settled (snd m)"
        unfolding tracked_def by blast
      with True m(2) show "mid \<in> P \<or> settled ((snd m2)\<lparr>estado := EnCurso\<rparr>)"
        unfolding \<open>m2 = m\<close> by (auto simp: settled_def)
    qed
    with Some True show ?thesis by (simp add: startMatch_def)
  qed
qed

lemma tracked_deleteTournament: "tracked P s \<Longrightarrow> tracked P (snd (deleteTournament tid force s))"
  by (auto simp: deleteTournament_def Let_def tracked_def distinct_map_filter
           split: option.splits sum.splits)

lemma tracked_setTournamentEstado: "tracked P s \<Longrightarrow> tracked P (setTournamentEstado tid e s)"
  by (simp add: tracked_def)

lemma tracked_generateBracket:
  "tracked P s \<Longrightarrow> tracked P (snd (generateBracket rnd shuf tid playerIds s))"
  by (auto simp: generateBracket_def Let_def split: option.splits
           intro!: tracked_setTournamentEstado tracked_createManyMatches
           dest: generateRoundRobinBracket_settled generateEliminationBracket_settled
           elim: tracked_cong [rotated 2])

lemma tracked_manualSeeding:
  "tracked P s \<Longrightarrow> tracked P (snd (manualSeeding tid seeded s))"
  by (auto simp: manualSeeding_def Let_def split: option.splits
           intro!: tracked_setTournamentEstado tracked_createManyMatches
           dest: generateRoundRobinBracket_settled manualRoundFrom_settled)

lemma reachable_tracked: "reachable P s \<Longrightarrow> tracked P s"
proof (induction rule: reachable.induct)
  case (reach_init s)
  then show ?case by (simp add: tracked_def)
next
  case (reach_rejected P s mid body e s')
  from putResult_rejected [OF reach_rejected.hyps(2)] reach_rejected.IH
  show ?case by simp
next
  case (reach_finished P s mid body m' s')
  from tracked_putResult(1) [OF reach_finished.IH reach_finished.hyps(2,3)]
  show ?case .
next
  case (reach_unfinished P s mid body m' s')
  from tracked_putResult(2) [OF reach_unfinished.IH reach_unfinished.hyps(2)]
  show ?case .
next
  case (reach_other P s s')
  then show ?case by (simp add: tracked_def)
qed (simp_all add: tracked_generateBracket tracked_manualSeeding
       tracked_startMatch tracked_deleteTournament)

lemma matches_generateNextMatch:
  "m \<in> set (matches s) \<Longrightarrow> m \<in> set (matches (generateNextMatch cm s))"
  by (simp add: generateNextMatch_def Let_def createManyMatches_def)

lemma putResult_written:
  assumes "putResult mid body s = (Inr m', s')"
  shows "fst m' = mid \<and> m' \<in> set (matches s') \<and> ganadorId (snd m') = Some (winnerId body)
       \<and> statusEstado (status body) = Some (estado (snd m'))"
proof -
  from putResult_found [OF assms] obtain m where m: "findMatch mid s = Some m" by blast
  from putResult_accepted [OF assms m] obtain st where
    st: "statusEstado (status body) = Some st"
    and m': "m' = (mid, (snd m)\<lparr>setsJ1 := fst (countSets (b_sets body) (0, 0)),
                               setsJ2 := snd (countSets (b_sets body) (0, 0)),
                               ganadorId := Some (winnerId body), estado := st\<rparr>)"
    and s': "s' = generateNextMatch m'
                  (replaceSets mid (setsToCreate mid (snd m) (b_sets body))
                     (updateMatch mid (\<lambda>_. snd m') s))"
    by blast
  from findMatch_mem [OF m] have mem: "m \<in> set (matches s)" "fst m = mid"
    by simp_all
  have "m' = (\<lambda>x. if fst x = mid then (fst x, snd m') else x) m"
    using mem(2) by (simp add: m')
  also have "\<dots> \<in> set (matches (updateMatch mid (\<lambda>_. snd m') s))"
    unfolding updateMatch_def using mem(1) by simp
  finally have "m' \<in> set (matches (replaceSets mid (setsToCreate mid (snd m) (b_sets body))
                                    (updateMatch mid (\<lambda>_. snd m') s)))"
    by simp
  then have "m' \<in> set (matches s')"
    unfolding s' by (rule matches_generateNextMatch)
  then show ?thesis
    using st by (simp add: m')
qed

section \<open>The round robin schedule\<close>

lemma shiftFrom_length [simp]: "length (shiftFrom pw i n) = length pw"
proof (induction pw i n rule: shiftFrom.induct)
  case (1 pw i n)
  show ?case
  proof (cases "i + 1 < n")
    case True
    then have "shiftFrom pw i n = shiftFrom (pw[i := pw ! (i + 1)]) (i + 1) n"
      by (subst shiftFrom.simps) simp
    with 1 True show ?thesis by simp
  next
    case False
    then show ?thesis by (subst shiftFrom.simps) simp
  qed
qed

lemma shiftFrom_nth:
  "n = length pw \<Longrightarrow> j < n \<Longrightarrow>
   shiftFrom pw i n ! j = (if i \<le> j \<and> j + 1 < n then pw ! (j + 1) else pw ! j)"
proof (induction pw i n arbitrary: j rule: shiftFrom.induct)
  case (1 pw i n)
  show ?case
  proof (cases "i + 1 < n")
    case True
    let ?pw = "pw[i := pw ! (i + 1)]"
    have eq: "shiftFrom pw i n = shiftFrom ?pw (i + 1) n"
      using True by (subst shiftFrom.simps) simp
    have "shiftFrom ?pw (i + 1) n ! j
            = (if i + 1 \<le> j \<and> j + 1 < n then ?pw ! (j + 1) else ?pw ! j)"
      using "1.prems" by (intro "1.IH" [OF True]) simp_all
    also have "\<dots> = (if i \<le> j \<and> j + 1 < n then pw ! (j + 1) else pw ! j)"
      using True "1.prems" by (auto simp: nth_list_update)
    finally show ?thesis by (simp only: eq)
  next
    case False
    then have "shiftFrom pw i n = pw"
      by (subst shiftFrom.simps) simp
    with False "1.prems" show ?thesis by auto
  qed
qed

lemma rotatePlayers_length [simp]: "length (rotatePlayers pw n) = length pw"
  by (simp add: rotatePlayers_def Let_def)

lemma rotatePlayers_nth:
  assumes "n = length pw" and "2 \<le> n" and "j < n"
  shows "rotatePlayers pw n ! j
           = (if j = 0 then pw ! 0 else if j + 1 < n then pw ! (j + 1) else pw ! 1)"
proof (cases "j + 1 < n")
  case True
  then have "rotatePlayers pw n ! j = shiftFrom pw 1 n ! j"
    using assms by (simp add: rotatePlayers_def Let_def)
  also have "\<dots> = (if 1 \<le> j \<and> j + 1 < n then pw ! (j + 1) else pw ! j)"
    by (rule shiftFrom_nth [OF assms(1,3)])
  finally show ?thesis using True by auto
next
  case False
  with assms have "j = n - 1" by simp
  with assms False show ?thesis
    by (simp add: rotatePlayers_def Let_def)
qed

lemma rotatePlayers_funpow_length [simp]:
  "length (((\<lambda>pw. rotatePlayers pw n) ^^ k) pw) = length pw"
  by (induction k) simp_all

lemma rotatePlayers_funpow_nth:
  assumes "n = length pw" and "2 \<le> n" and "j < n"
  shows "((\<lambda>pw. rotatePlayers pw n) ^^ k) pw ! j = pw ! circlePos n k j"
  using assms(3)
proof (induction k arbitrary: j)
  case 0
  then show ?case
    using assms by (simp add: circlePos_def)
next
  case (Suc k)
  let ?a = "((\<lambda>pw. rotatePlayers pw n) ^^ k) pw"
  have len: "n = length ?a" using assms(1) by simp
  have "((\<lambda>pw. rotatePlayers pw n) ^^ Suc k) pw ! j = rotatePlayers ?a n ! j"
    by simp
  also have "\<dots> = (if j = 0 then ?a ! 0 else if j + 1 < n then ?a ! (j + 1) else ?a ! 1)"
    by (rule rotatePlayers_nth [OF len assms(2) Suc.prems])
  also have "\<dots> = pw ! circlePos n (Suc k) j"
  proof (cases "j = 0")
    case True
    then show ?thesis using Suc.IH [of 0] assms(2) by (simp add: circlePos_def)
  next
    case j0: False
    show ?thesis
    proof (cases "j + 1 < n")
      case True
      then have "?a ! (j + 1) = pw ! circlePos n k (j + 1)"
        by (intro Suc.IH)
      moreover have "circlePos n k (j + 1) = circlePos n (Suc k) j"
        using j0 by (simp add: circlePos_def)
      ultimately show ?thesis using j0 True by simp
    next
      case False
      with Suc.prems have j: "j = n - 1" by simp
      have "?a ! 1 = pw ! circlePos n k 1"
        using assms(2) by (intro Suc.IH) simp
      moreover have "circlePos n k 1 = circlePos n (Suc k) j"
      proof -
        from assms(2) obtain m where m: "n = Suc m" "0 < m"
          by (cases n) auto
        have "(m - 1 + Suc k) mod m = (k + m) mod m"
          using m(2) by (intro arg_cong [where f = "\<lambda>x. x mod m"]) simp
        also have "\<dots> = k mod m" by simp
        finally show ?thesis
          using j m by (simp add: circlePos_def)
      qed
      ultimately show ?thesis using j0 False by simp
    qed
  qed
  finally show ?case .
qed

lemma roundPairsFrom_concat:
  "roundPairsFrom pw i n r tid = concat (map (pairCell pw n r tid) [i ..< (n + 1) div 2])"
proof (induction pw i n r tid rule: roundPairsFrom.induct)
  case (1 pw i n r tid)
  show ?case
  proof (cases "2 * i < n")
    case True
    then have lt: "i < (n + 1) div 2" by presburger
    have "roundPairsFrom pw i n r tid
            = pairCell pw n r tid i @ roundPairsFrom pw (i + 1) n r tid"
      using True by (subst roundPairsFrom.simps) (simp add: pairCell_def)
    also have "\<dots> = pairCell pw n r tid i
                        @ concat (map (pairCell pw n r tid) [i + 1 ..< (n + 1) div 2])"
      using "1.IH" [OF True] by simp
    also have "\<dots> = concat (map (pairCell pw n r tid) [i ..< (n + 1) div 2])"
      using lt by (simp add: upt_conv_Cons)
    finally show ?thesis .
  next
    case False
    then have "\<not> i < (n + 1) div 2" by presburger
    with False show ?thesis by (subst roundPairsFrom.simps) simp
  qed
qed

lemma rotatePlayers_funpow_swap:
  "((\<lambda>pw. rotatePlayers pw n) ^^ k) (rotatePlayers pw n)
     = rotatePlayers (((\<lambda>pw. rotatePlayers pw n) ^^ k) pw) n"
  using funpow_swap1 [of "\<lambda>pw. rotatePlayers pw n" k pw] by simp

lemma roundsFrom_concat:
  "roundsFrom pw r n tid =
     concat (map (\<lambda>k. roundPairsFrom (((\<lambda>pw. rotatePlayers pw n) ^^ k) pw) 0 n (r + k) tid)
                 [0 ..< n - r])"
proof (induction pw r n tid rule: roundsFrom.induct)
  case (1 pw r n tid)
  let ?rot = "\<lambda>pw. rotatePlayers pw n"
  show ?case
  proof (cases "r + 1 \<le> n")
    case True
    have "roundsFrom pw r n tid
            = roundPairsFrom pw 0 n r tid @ roundsFrom (rotatePlayers pw n) (r + 1) n tid"
      using True by (subst roundsFrom.simps) simp
    also have "roundsFrom (rotatePlayers pw n) (r + 1) n tid
                 = concat (map (\<lambda>k. roundPairsFrom ((?rot ^^ k) (?rot pw)) 0 n (r + 1 + k) tid)
                               [0 ..< n - (r + 1)])"
      by (rule "1.IH" [OF True])
    also have "\<dots> = concat (map (\<lambda>k. roundPairsFrom ((?rot ^^ k) pw) 0 n (r + k) tid)
                               (map Suc [0 ..< n - (r + 1)]))"
      by (simp add: comp_def rotatePlayers_funpow_swap)
    also have "map Suc [0 ..< n - (r + 1)] = [1 ..< n - r]"
      using True by (simp add: map_Suc_upt Suc_diff_Suc)
    finally have "roundsFrom pw r n tid
            = concat (map (\<lambda>k. roundPairsFrom ((?rot ^^ k) pw) 0 n (r + k) tid)
                          (0 # [1 ..< n - r]))"
      by simp
    moreover have "0 # [1 ..< n - r] = [0 ..< n - r]"
      using True by (simp add: upt_conv_Cons)
    ultimately show ?thesis by (simp only:)
  next
    case False
    then show ?thesis by (subst roundsFrom.simps) simp
  qed
qed

lemma circlePos_less: "2 \<le> n \<Longrightarrow> j < n \<Longrightarrow> circlePos n k j < n"
proof -
  assume "2 \<le> n" and "j < n"
  then obtain m where m: "n = Suc m" "0 < m"
    by (cases n) auto
  then show ?thesis
    by (simp add: circlePos_def)
qed

lemma circlePos_zero_iff: "circlePos n k j = 0 \<longleftrightarrow> j = 0"
  by (simp add: circlePos_def)

lemma mod_add_inj:
  fixes a b k m :: nat
  assumes "a < m" and "b < m" and "(a + k) mod m = (b + k) mod m"
  shows "a = b"
proof -
  have aux: "x = y" if "x \<le> y" "y < m" "(x + k) mod m = (y + k) mod m" for x y :: nat
  proof -
    from that(1) have "x + k \<le> y + k" by simp
    with that(3) have "m dvd (y + k) - (x + k)"
      by (metis mod_eq_dvd_iff_nat)
    then have "m dvd y - x" by simp
    moreover have "y - x < m" using that(2) by simp
    ultimately have "y - x = 0"
      by (meson dvd_imp_le gr_zeroI leD)
    with that(1) show ?thesis by simp
  qed
  show ?thesis
  proof (cases "a \<le> b")
    case True
    then show ?thesis using aux [of a b] assms by simp
  next
    case False
    then have "b \<le> a" by simp
    then show ?thesis using aux [of b a] assms by simp
  qed
qed

lemma circlePos_inj:
  assumes "2 \<le> n" and "j < n" and "j' < n" and "circlePos n k j = circlePos n k j'"
  shows "j = j'"
proof (cases "j = 0 \<or> j' = 0")
  case True
  then show ?thesis
    using assms(4) circlePos_zero_iff [of n k j] circlePos_zero_iff [of n k j'] by metis
next
  case False
  then have e: "(j - 1 + k) mod (n - 1) = (j' - 1 + k) mod (n - 1)"
    using assms(4) by (simp add: circlePos_def)
  have l: "j - 1 < n - 1" "j' - 1 < n - 1"
    using False assms(2,3) by linarith+
  have "j - 1 = j' - 1"
    by (rule mod_add_inj [OF l e])
  with False show ?thesis by linarith
qed

lemma double_mod_inj:
  fixes k k' m :: nat
  assumes "odd m" and "k < m" and "k' < m" and "(2 * k) mod m = (2 * k') mod m"
  shows "k = k'"
proof -
  have aux: "x = y" if "x \<le> y" "y < m" "(2 * x) mod m = (2 * y) mod m" for x y :: nat
  proof -
    from that(1) have "2 * x \<le> 2 * y" by simp
    with that(3) have "m dvd 2 * y - 2 * x"
      by (metis mod_eq_dvd_iff_nat)
    then have "m dvd (y - x) * 2"
      by (simp add: diff_mult_distrib mult.commute)
    moreover from assms(1) have "coprime m 2"
      by simp
    ultimately have "m dvd y - x"
      by (simp add: coprime_dvd_mult_left_iff)
    moreover have "y - x < m" using that(2) by simp
    ultimately have "y - x = 0"
      by (meson dvd_imp_le gr_zeroI leD)
    with that(1) show ?thesis by simp
  qed
  show ?thesis
  proof (cases "k \<le> k'")
    case True
    then show ?thesis using aux [of k k'] assms by simp
  next
    case False
    then have "k' \<le> k" by simp
    then show ?thesis using aux [of k' k] assms by simp
  qed
qed

lemma circlePos_pair_sum:
  assumes "n = 2 * h" and "1 \<le> i" and "i < h"
  shows "(circlePos n k i + circlePos n k (n - 1 - i)) mod (n - 1) = (2 * k) mod (n - 1)"
proof -
  define m where "m = n - 1"
  define A where "A = i - 1 + k"
  define B where "B = n - 1 - i - 1 + k"
  from assms have i0: "i \<noteq> 0" and o0: "n - 1 - i \<noteq> 0" by simp_all
  have "circlePos n k i + circlePos n k (n - 1 - i) = 2 + (A mod m + B mod m)"
    using i0 o0 by (simp add: circlePos_def A_def B_def m_def)
  moreover have "(2 + (A mod m + B mod m)) mod m = (2 + (A + B)) mod m"
    by (metis mod_add_eq mod_add_right_eq)
  moreover have "2 + (A + B) = 2 * k + m"
    using assms by (simp add: A_def B_def m_def)
  moreover have "(2 * k + m) mod m = (2 * k) mod m"
    by simp
  ultimately show ?thesis
    by (simp add: m_def)
qed

lemma circlePos_pair_inj:
  assumes n: "n = 2 * h" and k: "k < n - 1" "k' < n - 1" and i: "i < h" "i' < h"
    and eq: "{circlePos n k i, circlePos n k (n - 1 - i)}
               = {circlePos n k' i', circlePos n k' (n - 1 - i')}"
  shows "k = k' \<and> i = i'"
proof -
  from n i have n2: "2 \<le> n" by simp
  have o: "n - 1 - i \<noteq> 0" "n - 1 - i' \<noteq> 0" "n - 1 - i < n" "n - 1 - i' < n" "i < n" "i' < n"
    using n i by simp_all
  from eq have cases:
    "circlePos n k i = circlePos n k' i' \<and> circlePos n k (n - 1 - i) = circlePos n k' (n - 1 - i')
     \<or> circlePos n k i = circlePos n k' (n - 1 - i') \<and> circlePos n k (n - 1 - i) = circlePos n k' i'"
    by (simp only: doubleton_eq_iff)
  have nz: "circlePos n k (n - 1 - i) \<noteq> 0" "circlePos n k' (n - 1 - i') \<noteq> 0"
    using o(1,2) by (simp_all only: circlePos_zero_iff not_False_eq_True)
  have zero: "i = 0 \<longleftrightarrow> i' = 0"
    using cases nz circlePos_zero_iff [of n k i] circlePos_zero_iff [of n k' i'] by metis
  have kk: "k = k'"
  proof (cases "i = 0")
    case True
    with zero have i'0: "i' = 0" by simp
    from cases nz have "circlePos n k (n - 1 - i) = circlePos n k' (n - 1 - i')"
      using True i'0 circlePos_zero_iff [of n k i] circlePos_zero_iff [of n k' i'] by metis
    then have "circlePos n k (n - 1) = circlePos n k' (n - 1)"
      using True i'0 by simp
    then have "(k + (n - 1 - 1)) mod (n - 1) = (k' + (n - 1 - 1)) mod (n - 1)"
      using n2 by (simp add: circlePos_def add.commute)
    from mod_add_inj [OF k this] show ?thesis .
  next
    case False
    with zero have i'0: "i' \<noteq> 0" by simp
    from cases have "circlePos n k i + circlePos n k (n - 1 - i)
                    = circlePos n k' i' + circlePos n k' (n - 1 - i')"
      by linarith
    moreover have "(circlePos n k i + circlePos n k (n - 1 - i)) mod (n - 1) = (2 * k) mod (n - 1)"
      using False by (intro circlePos_pair_sum [OF n _ i(1)]) simp
    moreover have "(circlePos n k' i' + circlePos n k' (n - 1 - i')) mod (n - 1) = (2 * k') mod (n - 1)"
      using i'0 by (intro circlePos_pair_sum [OF n _ i(2)]) simp
    ultimately have e: "(2 * k) mod (n - 1) = (2 * k') mod (n - 1)"
      by simp
    have od: "odd (n - 1)"
      using n n2 by simp
    show ?thesis
      by (rule double_mod_inj [OF od k e])
  qed
  have "i = i'"
    using cases
  proof
    assume "circlePos n k i = circlePos n k' i' \<and> circlePos n k (n - 1 - i) = circlePos n k' (n - 1 - i')"
    then have "circlePos n k i = circlePos n k i'"
      by (simp only: kk)
    then show ?thesis
      by (rule circlePos_inj [OF n2 o(5) o(6)])
  next
    assume "circlePos n k i = circlePos n k' (n - 1 - i') \<and> circlePos n k (n - 1 - i) = circlePos n k' i'"
    then have "circlePos n k i = circlePos n k (n - 1 - i')"
      by (simp only: kk)
    then have "i = n - 1 - i'"
      by (rule circlePos_inj [OF n2 o(5) o(4)])
    with n i show ?thesis by simp
  qed
  with kk show ?thesis by simp
qed

lemma pairCell_rotated:
  assumes "n = length pw" and "2 \<le> n" and "i < n"
  shows "pairCell (((\<lambda>pw. rotatePlayers pw n) ^^ k) pw) n (k + 1) tid i = circleCell pw n tid (k, i)"
proof -
  let ?a = "((\<lambda>pw. rotatePlayers pw n) ^^ k) pw"
  have o: "n - 1 - i < n" using assms(2) by simp
  have "slot ?a i = pw ! circlePos n k i"
    using assms by (simp add: slot_def rotatePlayers_funpow_nth)
  moreover have "slot ?a (n - 1 - i) = pw ! circlePos n k (n - 1 - i)"
    using assms o by (simp add: slot_def rotatePlayers_funpow_nth del: One_nat_def)
  ultimately show ?thesis
    by (simp add: pairCell_def circleCell_def split: option.splits)
qed

lemma concat_map_over_concat:
  "concat (map f (concat xss)) = concat (map (\<lambda>xs. concat (map f xs)) xss)"
  by (induction xss) simp_all

lemma roundsFrom_circle:
  assumes "n = length pw" and "2 \<le> n" and "even n"
  shows "roundsFrom pw 1 n tid = concat (map (circleCell pw n tid) (circleSlots n))"
proof -
  let ?rot = "\<lambda>pw. rotatePlayers pw n"
  have h: "(n + 1) div 2 = n div 2" "Suc n div 2 = n div 2"
    using assms(3) by presburger+
  have "roundsFrom pw 1 n tid
          = concat (map (\<lambda>k. concat (map (pairCell ((?rot ^^ k) pw) n (1 + k) tid) [0 ..< n div 2]))
                        [0 ..< n - 1])"
    by (simp add: roundsFrom_concat roundPairsFrom_concat h)
  also have "\<dots> = concat (map (\<lambda>k. concat (map (\<lambda>i. circleCell pw n tid (k, i)) [0 ..< n div 2]))
                        [0 ..< n - 1])"
  proof -
    have eq: "map (pairCell ((?rot ^^ k) pw) n (1 + k) tid) [0 ..< n div 2]
            = map (\<lambda>i. circleCell pw n tid (k, i)) [0 ..< n div 2]" for k
    proof (rule map_cong [OF refl])
      fix i
      assume "i \<in> set [0 ..< n div 2]"
      then have "i < n" by simp
      from pairCell_rotated [OF assms(1,2) this, of k tid]
      show "pairCell ((?rot ^^ k) pw) n (1 + k) tid i = circleCell pw n tid (k, i)"
        by simp
    qed
    show ?thesis by (simp only: eq)
  qed
  also have "\<dots> = concat (map (circleCell pw n tid) (circleSlots n))"
    by (simp add: circleSlots_def concat_map_over_concat comp_def)
  finally show ?thesis .
qed

lemma circleSlots_product: "circleSlots n = List.product [0 ..< n - 1] [0 ..< n div 2]"
  by (simp add: circleSlots_def product_concat_map)

lemma circleSlots_set [simp]: "set (circleSlots n) = {0 ..< n - 1} \<times> {0 ..< n div 2}"
  by (simp add: circleSlots_product)

lemma circleSlots_distinct [simp]: "distinct (circleSlots n)"
  by (simp add: circleSlots_product distinct_product)

lemma circleSlots_length [simp]: "length (circleSlots n) = (n - 1) * (n div 2)"
  by (simp add: circleSlots_product)

lemma circlePair_inj: "even n \<Longrightarrow> inj_on (circlePair n) (set (circleSlots n))"
proof (rule inj_onI)
  fix x y
  assume ev: "even n" and x: "x \<in> set (circleSlots n)" and y: "y \<in> set (circleSlots n)"
    and eq: "circlePair n x = circlePair n y"
  from ev have n: "n = 2 * (n div 2)" by simp
  from x y have r: "fst x < n - 1" "fst y < n - 1" "snd x < n div 2" "snd y < n div 2"
    by auto
  from circlePos_pair_inj [OF n r eq [unfolded circlePair_def]]
  show "x = y" by (simp add: prod_eq_iff)
qed

lemma circlePair_two:
  assumes "even n" and "ki \<in> set (circleSlots n)"
  shows "circlePair n ki \<subseteq> {0 ..< n} \<and> card (circlePair n ki) = 2"
proof -
  from assms have i: "snd ki < n div 2" and n2: "2 \<le> n"
    by auto
  with assms(1) have r: "snd ki < n" "n - 1 - snd ki < n" and ne: "snd ki \<noteq> n - 1 - snd ki"
    by presburger+
  have "circlePos n (fst ki) (snd ki) \<noteq> circlePos n (fst ki) (n - 1 - snd ki)"
    using circlePos_inj [OF n2 r] ne by blast
  then have "card (circlePair n ki) = 2"
    by (simp add: circlePair_def)
  moreover have "circlePair n ki \<subseteq> {0 ..< n}"
    using circlePos_less [OF n2 r(1)] circlePos_less [OF n2 r(2)]
    by (simp add: circlePair_def)
  ultimately show ?thesis by simp
qed

lemma circlePair_image:
  assumes "even n"
  shows "circlePair n ` set (circleSlots n) = {S. S \<subseteq> {0 ..< n} \<and> card S = 2}"
proof (rule card_subset_eq)
  show "finite {S. S \<subseteq> {0 ..< n} \<and> card S = 2}"
    by simp
  show "circlePair n ` set (circleSlots n) \<subseteq> {S. S \<subseteq> {0 ..< n} \<and> card S = 2}"
    using circlePair_two [OF assms] by blast
  have "card (circlePair n ` set (circleSlots n)) = card (set (circleSlots n))"
    by (rule card_image [OF circlePair_inj [OF assms]])
  also have "\<dots> = (n - 1) * (n div 2)"
    by (simp add: distinct_card)
  also have "\<dots> = n * (n - 1) div 2"
    using assms by (auto elim!: evenE)
  also have "\<dots> = card {S. S \<subseteq> {0 ..< n} \<and> card S = 2}"
    by (simp add: n_subsets choose_two)
  finally show "card (circlePair n ` set (circleSlots n)) = card {S. S \<subseteq> {0 ..< n} \<and> card S = 2}" .
qed

lemma circlePair_distinct: "even n \<Longrightarrow> distinct (map (circlePair n) (circleSlots n))"
  using circlePair_inj [of n] circleSlots_distinct [of n] by (simp only: distinct_map simp_thms)

lemma playersWithBye_length:
  "length (playersWithBye ps) = (if even (length ps) then length ps else length ps + 1)"
  by (simp add: playersWithBye_def even_iff_mod_2_eq_zero)

lemma playersWithBye_even: "even (length (playersWithBye ps))"
  by (simp add: playersWithBye_length)

lemma playersWithBye_nth:
  "j < length (playersWithBye ps) \<Longrightarrow>
   playersWithBye ps ! j = (if j < length ps then Some (ps ! j) else None)"
  by (auto simp: playersWithBye_def nth_append less_Suc_eq)

lemma filter_concat_cells:
  "(\<And>x. x \<in> set xs \<Longrightarrow> f x = (if g x then [c x] else [])) \<Longrightarrow>
   length (filter P (concat (map f xs))) = length (filter (\<lambda>x. g x \<and> P (c x)) xs)"
  by (induction xs) auto

lemma set_concat_cells:
  "(\<And>x. x \<in> set xs \<Longrightarrow> f x = (if g x then [c x] else [])) \<Longrightarrow>
   set (concat (map f xs)) = c ` {x \<in> set xs. g x}"
  by (induction xs) auto

lemma circleCell_playersWithBye:
  assumes "2 \<le> length ps" and "n = length (playersWithBye ps)" and "ki \<in> set (circleSlots n)"
  shows "circleCell (playersWithBye ps) n tid ki =
           (if circlePair n ki \<subseteq> {0 ..< length ps}
            then [pendingMatch tid (p_id (ps ! circlePos n (fst ki) (snd ki)))
                    (p_id (ps ! circlePos n (fst ki) (n - 1 - snd ki))) (fst ki + 1) ''Principal'']
            else [])"
proof -
  have ev: "even n" by (simp add: assms(2) playersWithBye_even)
  define a where "a = circlePos n (fst ki) (snd ki)"
  define b where "b = circlePos n (fst ki) (n - 1 - snd ki)"
  from circlePair_two [OF ev assms(3)]
  have a: "a < length (playersWithBye ps)" and b: "b < length (playersWithBye ps)"
    by (simp_all add: circlePair_def assms(2) a_def b_def)
  have "circleCell (playersWithBye ps) n tid ki =
          (case playersWithBye ps ! a of
             Some x \<Rightarrow> (case playersWithBye ps ! b of
                          Some y \<Rightarrow> [pendingMatch tid (p_id x) (p_id y) (fst ki + 1) ''Principal'']
                        | None \<Rightarrow> [])
           | None \<Rightarrow> [])"
    by (simp only: circleCell_def a_def b_def)
  also have "\<dots> = (if {a, b} \<subseteq> {0 ..< length ps}
                     then [pendingMatch tid (p_id (ps ! a)) (p_id (ps ! b)) (fst ki + 1) ''Principal'']
                     else [])"
    by (simp add: playersWithBye_nth [OF a] playersWithBye_nth [OF b])
  finally show ?thesis
    by (simp only: circlePair_def a_def b_def)
qed

lemma generateRoundRobinBracket_circle:
  assumes "2 \<le> length ps" and "n = length (playersWithBye ps)"
  shows "generateRoundRobinBracket ps tid
           = concat (map (circleCell (playersWithBye ps) n tid) (circleSlots n))"
proof -
  have "2 \<le> n"
    using assms by (simp add: playersWithBye_length)
  moreover have "even n"
    by (simp add: assms(2) playersWithBye_even)
  ultimately show ?thesis
    using roundsFrom_circle [OF assms(2)]
    by (simp add: generateRoundRobinBracket_def assms(2) [symmetric])
qed

lemma two_subsets_card: "card {S. S \<subseteq> {0 ..< k} \<and> card S = 2} = k * (k - 1) div 2"
  by (simp add: n_subsets choose_two)

lemma generateRoundRobinBracket_length:
  assumes "2 \<le> length ps"
  shows "length (generateRoundRobinBracket ps tid) = length ps * (length ps - 1) div 2"
proof -
  define n where "n = length (playersWithBye ps)"
  define np where "np = length ps"
  have ev: "even n" by (simp add: n_def playersWithBye_even)
  have le: "np \<le> n" by (simp add: n_def np_def playersWithBye_length)
  let ?U = "map (circlePair n) (circleSlots n)"
  have "length (generateRoundRobinBracket ps tid)
          = length (filter (\<lambda>m. True) (generateRoundRobinBracket ps tid))"
    by simp
  also have "\<dots> = length (filter (\<lambda>ki. circlePair n ki \<subseteq> {0 ..< np} \<and> True) (circleSlots n))"
    unfolding generateRoundRobinBracket_circle [OF assms n_def]
    by (rule filter_concat_cells) (simp add: circleCell_playersWithBye [OF assms n_def] np_def)
  also have "\<dots> = length (filter (\<lambda>S. S \<subseteq> {0 ..< np}) ?U)"
    by (simp add: filter_map comp_def)
  also have "\<dots> = card (set (filter (\<lambda>S. S \<subseteq> {0 ..< np}) ?U))"
  proof -
    have "distinct (filter (\<lambda>S. S \<subseteq> {0 ..< np}) ?U)"
      using circlePair_distinct [OF ev] by (rule distinct_filter)
    then show ?thesis by (simp only: distinct_card)
  qed
  also have "set (filter (\<lambda>S. S \<subseteq> {0 ..< np}) ?U) = {S. S \<subseteq> {0 ..< np} \<and> card S = 2}"
  proof -
    have "set ?U = {S. S \<subseteq> {0 ..< n} \<and> card S = 2}"
      using circlePair_image [OF ev] by (simp only: set_map)
    then have "set (filter (\<lambda>S. S \<subseteq> {0 ..< np}) ?U)
                 = {S. (S \<subseteq> {0 ..< n} \<and> card S = 2) \<and> S \<subseteq> {0 ..< np}}"
      by (simp only: set_filter) blast
    also have "\<dots> = {S. S \<subseteq> {0 ..< np} \<and> card S = 2}"
      using le by auto
    finally show ?thesis .
  qed
  also have "card {S. S \<subseteq> {0 ..< np} \<and> card S = 2} = np * (np - 1) div 2"
    by (rule two_subsets_card)
  finally show ?thesis by (simp add: np_def)
qed

lemma distinct_filter_eq_one:
  "distinct xs \<Longrightarrow> x \<in> set xs \<Longrightarrow> length (filter (\<lambda>y. y = x) xs) = 1"
proof (induction xs)
  case Nil
  then show ?case by simp
next
  case (Cons a xs)
  show ?case
  proof (cases "a = x")
    case True
    with Cons.prems have "x \<notin> set xs" by simp
    then have "filter (\<lambda>y. y = x) xs = []"
      by (induction xs) auto
    with True show ?thesis by simp
  next
    case False
    with Cons show ?thesis by simp
  qed
qed

lemma jugador1Id_pendingMatch [simp]: "jugador1Id (pendingMatch tid a b r f) = a"
  by (simp add: pendingMatch_def)

lemma ronda_pendingMatch [simp]: "ronda (pendingMatch tid a b r f) = r"
  by (simp add: pendingMatch_def)

lemma generateRoundRobinBracket_pair_once:
  assumes "2 \<le> length ps" and "distinct (map p_id ps)"
    and "x \<in> set ps" and "y \<in> set ps" and "x \<noteq> y"
  shows "length (filter (\<lambda>m. (jugador1Id m = p_id x \<and> jugador2Id m = Some (p_id y))
                             \<or> (jugador1Id m = p_id y \<and> jugador2Id m = Some (p_id x)))
                  (generateRoundRobinBracket ps tid)) = 1"
proof -
  define n where "n = length (playersWithBye ps)"
  define np where "np = length ps"
  define P where "P = (\<lambda>m :: match_data. (jugador1Id m = p_id x \<and> jugador2Id m = Some (p_id y))
                             \<or> (jugador1Id m = p_id y \<and> jugador2Id m = Some (p_id x)))"
  define c where "c = (\<lambda>ki. pendingMatch tid (p_id (ps ! circlePos n (fst ki) (snd ki)))
                    (p_id (ps ! circlePos n (fst ki) (n - 1 - snd ki))) (fst ki + 1) ''Principal'')"
  have ev: "even n" by (simp add: n_def playersWithBye_even)
  have le: "np \<le> n" by (simp add: n_def np_def playersWithBye_length)
  from assms(3,4) obtain p q where p: "p < np" "ps ! p = x" and q: "q < np" "ps ! q = y"
    by (auto simp: in_set_conv_nth np_def)
  with assms(5) have pq: "p \<noteq> q" by auto
  have ids: "p_id (ps ! a) = p_id (ps ! b) \<longleftrightarrow> a = b" if "a < np" "b < np" for a b
  proof -
    from that have "map p_id ps ! a = map p_id ps ! b \<longleftrightarrow> a = b"
      by (intro nth_eq_iff_index_eq [OF assms(2)]) (simp_all add: np_def)
    with that show ?thesis by (simp add: np_def)
  qed
  let ?U = "map (circlePair n) (circleSlots n)"
  have "length (filter P (generateRoundRobinBracket ps tid))
          = length (filter (\<lambda>ki. circlePair n ki \<subseteq> {0 ..< np} \<and> P (c ki)) (circleSlots n))"
    unfolding generateRoundRobinBracket_circle [OF assms(1) n_def]
    by (rule filter_concat_cells)
       (simp add: circleCell_playersWithBye [OF assms(1) n_def] np_def c_def)
  also have "\<dots> = length (filter (\<lambda>ki. circlePair n ki = {p, q}) (circleSlots n))"
  proof -
    have "(circlePair n ki \<subseteq> {0 ..< np} \<and> P (c ki)) \<longleftrightarrow> circlePair n ki = {p, q}" for ki
    proof -
      define a where "a = circlePos n (fst ki) (snd ki)"
      define b where "b = circlePos n (fst ki) (n - 1 - snd ki)"
      have cp: "circlePair n ki = {a, b}"
        by (simp only: circlePair_def a_def b_def)
      have pc: "P (c ki) \<longleftrightarrow> (p_id (ps ! a) = p_id (ps ! p) \<and> p_id (ps ! b) = p_id (ps ! q))
                              \<or> (p_id (ps ! a) = p_id (ps ! q) \<and> p_id (ps ! b) = p_id (ps ! p))"
        by (simp add: P_def c_def a_def b_def p(2) q(2))
      show ?thesis
      proof
        assume h: "circlePair n ki \<subseteq> {0 ..< np} \<and> P (c ki)"
        then have ab: "a < np" "b < np" by (simp_all add: cp)
        from h pc ids [OF ab(1) p(1)] ids [OF ab(2) q(1)] ids [OF ab(1) q(1)] ids [OF ab(2) p(1)]
        have "(a = p \<and> b = q) \<or> (a = q \<and> b = p)" by blast
        then show "circlePair n ki = {p, q}"
          unfolding cp by auto
      next
        assume "circlePair n ki = {p, q}"
        then have "{a, b} = {p, q}" by (simp only: cp)
        then have "(a = p \<and> b = q) \<or> (a = q \<and> b = p)"
          by (simp only: doubleton_eq_iff)
        with p(1) q(1) show "circlePair n ki \<subseteq> {0 ..< np} \<and> P (c ki)"
          unfolding cp pc by auto
      qed
    qed
    then show ?thesis by (simp only:)
  qed
  also have "\<dots> = length (filter (\<lambda>S. S = {p, q}) ?U)"
    by (simp add: filter_map comp_def)
  also have "\<dots> = 1"
  proof (rule distinct_filter_eq_one [OF circlePair_distinct [OF ev]])
    have "{p, q} \<subseteq> {0 ..< n} \<and> card {p, q} = 2"
      using p(1) q(1) le pq by simp
    then have "{p, q} \<in> circlePair n ` set (circleSlots n)"
      by (simp only: circlePair_image [OF ev] mem_Collect_eq)
    then show "{p, q} \<in> set ?U"
      by (simp only: set_map)
  qed
  finally show ?thesis by (simp only: P_def)
qed

lemma generateRoundRobinBracket_set:
  assumes "2 \<le> length ps" and "n = length (playersWithBye ps)"
  shows "set (generateRoundRobinBracket ps tid)
           = (\<lambda>ki. pendingMatch tid (p_id (ps ! circlePos n (fst ki) (snd ki)))
                     (p_id (ps ! circlePos n (fst ki) (n - 1 - snd ki))) (fst ki + 1) ''Principal'')
             ` {ki \<in> set (circleSlots n). circlePair n ki \<subseteq> {0 ..< length ps}}"
  unfolding generateRoundRobinBracket_circle [OF assms]
  by (rule set_concat_cells) (simp add: circleCell_playersWithBye [OF assms])

lemma round_has_real_pair:
  assumes "2 \<le> length ps" and "n = length (playersWithBye ps)" and "k < n - 1"
  shows "\<exists>i < n div 2. circlePair n (k, i) \<subseteq> {0 ..< length ps}"
proof (cases "even (length ps)")
  case True
  then have n: "n = length ps" by (simp add: assms(2) playersWithBye_length)
  have ev: "even n" using True n by simp
  have "(k, 0) \<in> set (circleSlots n)"
    using assms(1,3) n by simp
  from circlePair_two [OF ev this] have "circlePair n (k, 0) \<subseteq> {0 ..< length ps}"
    by (simp only: n)
  moreover have "0 < n div 2" using assms(1) n by simp
  ultimately show ?thesis by blast
next
  case False
  then have n: "n = length ps + 1" by (simp add: assms(2) playersWithBye_length)
  from False assms(1) have "3 \<le> length ps"
    by (cases "length ps = 2") auto
  with n have n4: "4 \<le> n" by simp
  then have n2: "2 \<le> n" by simp
  have lt: "0 < n" "n - 1 < n" "1 < n" "n - 2 < n" using n4 by simp_all
  define b0 where "b0 = circlePos n k (n - 1)"
  define a1 where "a1 = circlePos n k 1"
  define b1 where "b1 = circlePos n k (n - 2)"
  have r: "b0 < n" "a1 < n" "b1 < n"
    using circlePos_less [OF n2 lt(2)] circlePos_less [OF n2 lt(3)] circlePos_less [OF n2 lt(4)]
    by (simp_all add: b0_def a1_def b1_def)
  have d1: "b0 \<noteq> a1"
  proof
    assume "b0 = a1"
    then have "n - 1 = 1"
      unfolding b0_def a1_def by (rule circlePos_inj [OF n2 lt(2) lt(3)])
    with n4 show False by simp
  qed
  have d2: "b0 \<noteq> b1"
  proof
    assume "b0 = b1"
    then have "n - 1 = n - 2"
      unfolding b0_def b1_def by (rule circlePos_inj [OF n2 lt(2) lt(4)])
    with n4 show False by simp
  qed
  have p0: "circlePair n (k, 0) = {0, b0}"
    by (simp add: circlePair_def circlePos_def b0_def)
  have p1: "circlePair n (k, 1) = {a1, b1}"
  proof -
    have "n - 1 - 1 = n - 2" by simp
    then show ?thesis
      by (simp only: circlePair_def a1_def b1_def fst_conv snd_conv)
  qed
  have h: "0 < n div 2" "1 < n div 2" using n4 by simp_all
  show ?thesis
  proof (cases "b0 < length ps")
    case True
    then have "circlePair n (k, 0) \<subseteq> {0 ..< length ps}"
      using assms(1) by (auto simp: p0)
    with h(1) show ?thesis by blast
  next
    case False
    with r(1) n have "b0 = length ps" by simp
    with d1 d2 r(2,3) n have "a1 < length ps" "b1 < length ps" by simp_all
    then have "circlePair n (k, 1) \<subseteq> {0 ..< length ps}"
      unfolding p1 by simp
    with h(2) show ?thesis by blast
  qed
qed

lemma generateRoundRobinBracket_rounds:
  assumes "2 \<le> length ps"
  shows "ronda ` set (generateRoundRobinBracket ps tid) = {1 .. length (playersWithBye ps) - 1}"
proof -
  define n where "n = length (playersWithBye ps)"
  define c where "c = (\<lambda>ki. pendingMatch tid (p_id (ps ! circlePos n (fst ki) (snd ki)))
                     (p_id (ps ! circlePos n (fst ki) (n - 1 - snd ki))) (fst ki + 1) ''Principal'')"
  have s: "set (generateRoundRobinBracket ps tid)
             = c ` {ki \<in> set (circleSlots n). circlePair n ki \<subseteq> {0 ..< length ps}}"
    unfolding c_def by (rule generateRoundRobinBracket_set [OF assms n_def])
  have rc: "ronda (c ki) = fst ki + 1" for ki
    by (simp add: c_def)
  show ?thesis
  proof (rule set_eqI)
    fix r
    show "r \<in> ronda ` set (generateRoundRobinBracket ps tid)
            \<longleftrightarrow> r \<in> {1 .. length (playersWithBye ps) - 1}"
    proof
      assume "r \<in> ronda ` set (generateRoundRobinBracket ps tid)"
      then obtain ki where "ki \<in> set (circleSlots n)" and "r = fst ki + 1"
        unfolding s by (auto simp: rc)
      then show "r \<in> {1 .. length (playersWithBye ps) - 1}"
        by (auto simp: n_def)
    next
      assume "r \<in> {1 .. length (playersWithBye ps) - 1}"
      then have k: "r - 1 < n - 1" and r: "r = (r - 1) + 1"
        by (auto simp: n_def)
      from round_has_real_pair [OF assms n_def k] obtain i where
        i: "i < n div 2" "circlePair n (r - 1, i) \<subseteq> {0 ..< length ps}"
        by blast
      then have "(r - 1, i) \<in> {ki \<in> set (circleSlots n). circlePair n ki \<subseteq> {0 ..< length ps}}"
        using k by simp
      then have "c (r - 1, i) \<in> set (generateRoundRobinBracket ps tid)"
        unfolding s by (rule imageI)
      then have "ronda (c (r - 1, i)) \<in> ronda ` set (generateRoundRobinBracket ps tid)"
        by (rule imageI)
      then show "r \<in> ronda ` set (generateRoundRobinBracket ps tid)"
        using r by (simp only: rc fst_conv)
    qed
  qed
qed

lemma generateRoundRobinBracket_shape:
  assumes "2 \<le> length ps" and "distinct (map p_id ps)"
    and "m \<in> set (generateRoundRobinBracket ps tid)"
  shows "\<exists>x \<in> set ps. \<exists>y \<in> set ps.
           x \<noteq> y \<and> m = pendingMatch tid (p_id x) (p_id y) (ronda m) ''Principal''"
proof -
  define n where "n = length (playersWithBye ps)"
  have ev: "even n" by (simp add: n_def playersWithBye_even)
  from assms(3) obtain ki where ki: "ki \<in> set (circleSlots n)"
    and real: "circlePair n ki \<subseteq> {0 ..< length ps}"
    and m: "m = pendingMatch tid (p_id (ps ! circlePos n (fst ki) (snd ki)))
                     (p_id (ps ! circlePos n (fst ki) (n - 1 - snd ki))) (fst ki + 1) ''Principal''"
    unfolding generateRoundRobinBracket_set [OF assms(1) n_def] by blast
  define a where "a = circlePos n (fst ki) (snd ki)"
  define b where "b = circlePos n (fst ki) (n - 1 - snd ki)"
  have cp: "circlePair n ki = {a, b}"
    by (simp only: circlePair_def a_def b_def)
  from real have ab: "a < length ps" "b < length ps"
    by (simp_all add: cp)
  from circlePair_two [OF ev ki] have "card {a, b} = 2"
    by (simp only: cp)
  then have ne: "a \<noteq> b" by auto
  from assms(2) have "distinct ps"
    by (simp add: distinct_map)
  with ab ne have "ps ! a \<noteq> ps ! b"
    by (simp add: nth_eq_iff_index_eq)
  moreover have "ps ! a \<in> set ps" "ps ! b \<in> set ps"
    using ab by simp_all
  moreover have "m = pendingMatch tid (p_id (ps ! a)) (p_id (ps ! b)) (ronda m) ''Principal''"
    unfolding m a_def b_def by simp
  ultimately show ?thesis by blast
qed

section \<open>The standings of a finalized tournament\<close>

text \<open>
  What a completed finalization does persist. When a tournament that exists and is not yet
  Finished is finalized, and every recorded winner is a row of the players table, the rows
  appended to the results are: exactly one row for every player who won at least one
  match of the tournament (and none for any other player), with positions 1, 2, ... in
  descending order of the player's number of won matches over all matches of the
  tournament, each row carrying the points of its position; and every player's cumulative
  points grow by the points of that player's row.
\<close>

lemma finalize_results_for_winners:
  assumes "findTournament tid s = Some t" and "t_estado t \<noteq> Finalizado"
    and "winnersRegistered tid s"
  shows "\<exists>rows. tournamentResults (finalizeTournament tid w s) = tournamentResults s @ rows
      \<and> distinct (map jugadorId rows)
      \<and> set (map jugadorId rows) = {p. p \<noteq> 0 \<and> 0 < winCount tid s p}
      \<and> map posicionFinal rows = [1 ..< length rows + 1]
      \<and> sorted_wrt (\<lambda>a b. winCount tid s b \<le> winCount tid s a) (map jugadorId rows)
      \<and> (\<forall>r \<in> set rows. r_torneoId r = tid \<and> puntosGanados r = calculatePoints (posicionFinal r))
      \<and> map p_id (players (finalizeTournament tid w s)) = map p_id (players s)
      \<and> map puntos (players (finalizeTournament tid w s))
          = map (\<lambda>p. puntos p + pointsFor rows (p_id p)) (players s)"
proof -
  let ?pos = "calculateFinalPositions (tournamentMatches tid s)"
  let ?rows = "buildResults tid ?pos"
  from finalizeTournament_completes [OF assms refl, of w] obtain ps' where
    ids: "map p_id ps' = map p_id (players s)"
    and pts: "map puntos ps' = map (\<lambda>p. puntos p + pointsFor ?rows (p_id p)) (players s)"
    and fin: "finalizeTournament tid w s =
               setTournamentEstado tid Finalizado
                 (updateRankings (s\<lparr>tournamentResults := tournamentResults s @ ?rows,
                                    players := ps'\<rparr>))"
    by blast
  have 1: "tournamentResults (finalizeTournament tid w s) = tournamentResults s @ ?rows"
    by (simp add: fin)
  have 2: "distinct (map jugadorId ?rows)"
    by (simp add: buildResults_jugadorId positions_distinct)
  have 3: "set (map jugadorId ?rows) = {p. p \<noteq> 0 \<and> 0 < winCount tid s p}"
    using positions_keys [of tid s] by (simp add: buildResults_jugadorId)
  have 4: "map posicionFinal ?rows = [1 ..< length ?rows + 1]"
    by (simp add: buildResults_posicionFinal del: upt_Suc)
  have "sorted_wrt (\<lambda>a b. winCount tid s (fst b) \<le> winCount tid s (fst a)) ?pos"
  proof (rule sorted_wrt_mono_rel [OF _ positions_sorted])
    fix a b
    assume "a \<in> set ?pos" "b \<in> set ?pos" "snd b \<le> snd a"
    moreover from \<open>a \<in> set ?pos\<close> have "snd a = winCount tid s (fst a)"
      using positions_entry [of "fst a" "snd a" tid s] by simp
    moreover from \<open>b \<in> set ?pos\<close> have "snd b = winCount tid s (fst b)"
      using positions_entry [of "fst b" "snd b" tid s] by simp
    ultimately show "winCount tid s (fst b) \<le> winCount tid s (fst a)"
      by simp
  qed
  then have 5: "sorted_wrt (\<lambda>a b. winCount tid s b \<le> winCount tid s a) (map jugadorId ?rows)"
    by (simp add: buildResults_jugadorId sorted_wrt_map)
  have 6: "\<forall>r \<in> set ?rows. r_torneoId r = tid \<and> puntosGanados r = calculatePoints (posicionFinal r)"
    using buildResults_row by blast
  have 7: "map p_id (players (finalizeTournament tid w s)) = map p_id (players s)"
    by (simp add: fin ids)
  have 8: "map puntos (players (finalizeTournament tid w s))
             = map (\<lambda>p. puntos p + pointsFor ?rows (p_id p)) (players s)"
    by (simp add: fin pts)
  from 1 2 3 4 5 6 7 8 show ?thesis
    by (intro exI [of _ ?rows]) blast
qed

lemma finalize_results_for_winners_example:
  "tournamentResults (finalizeTournament 1 1 fourPlayerStore)
     = [\<lparr>r_torneoId = 1, jugadorId = 1, posicionFinal = 1, puntosGanados = 100\<rparr>,
        \<lparr>r_torneoId = 1, jugadorId = 3, posicionFinal = 2, puntosGanados = 75\<rparr>]
   \<and> map puntos (players (finalizeTournament 1 1 fourPlayerStore)) = [110, 20, 105, 40]"
proof -
  let ?t = "\<lparr>t_id = 1, tipo = EliminacionDirecta, t_estado = EnCurso, setsPorPartido = 3\<rparr>"
  let ?rs = "[\<lparr>r_torneoId = 1, jugadorId = 1, posicionFinal = 1, puntosGanados = 100\<rparr>,
        \<lparr>r_torneoId = 1, jugadorId = 3, posicionFinal = 2, puntosGanados = 75\<rparr>]"
  have h1: "findTournament 1 fourPlayerStore = Some ?t"
    by code_simp
  have h2: "t_estado ?t \<noteq> Finalizado" by simp
  have h3: "winnersRegistered 1 fourPlayerStore"
    by code_simp
  have r: "tournamentResults (finalizeTournament 1 1 fourPlayerStore) = ?rs"
    by code_simp
  have r0: "tournamentResults fourPlayerStore = []"
    by code_simp
  from finalize_results_for_winners [OF h1 h2 h3, of 1] obtain rows where
    a: "tournamentResults (finalizeTournament 1 1 fourPlayerStore)
          = tournamentResults fourPlayerStore @ rows"
    and b: "map puntos (players (finalizeTournament 1 1 fourPlayerStore))
          = map (\<lambda>p. puntos p + pointsFor rows (p_id p)) (players fourPlayerStore)"
    by blast
  from a r r0 have rows: "rows = ?rs" by simp
  have "map (\<lambda>p. puntos p + pointsFor ?rs (p_id p)) (players fourPlayerStore) = [110, 20, 105, 40]"
    by code_simp
  with b rows r show ?thesis by simp
qed

section \<open>The properties of the specification\<close>

subsection \<open>C1: the first round of an elimination bracket\<close>

text \<open>
  C1 as stated asks for exactly \<open>ceil(n/2)\<close> first-round matches (real matches plus
  synthesized byes) whatever the shuffle draws. The BYE slots are shuffled together with
  the players, so the number depends on the draw: five players are padded to eight slots,
  and draws that are all in range put a BYE behind three of them, which gives three
  bye matches and one real match, four matches and not three.
\<close>

theorem elimination_bracket_five_players_four_matches:
  "length fivePlayers = 5
   \<and> spreadDraws 1 \<le> 1 \<and> spreadDraws 2 \<le> 2 \<and> spreadDraws 3 \<le> 3 \<and> spreadDraws 4 \<le> 4
   \<and> spreadDraws 5 \<le> 5 \<and> spreadDraws 6 \<le> 6 \<and> spreadDraws 7 \<le> 7
   \<and> map (map_option p_id) (shuffledSlots spreadDraws fivePlayers)
       = [Some 1, None, Some 2, None, Some 3, None, Some 4, Some 5]
   \<and> generateEliminationBracket spreadDraws fivePlayers 1
       = [\<lparr>torneoId = 1, jugador1Id = 1, jugador2Id = None, ronda = 1, fase = ''Principal'',
           ganadorId = Some 1, setsJ1 = 1, setsJ2 = 0, estado = Finalizado\<rparr>,
          \<lparr>torneoId = 1, jugador1Id = 2, jugador2Id = None, ronda = 1, fase = ''Principal'',
           ganadorId = Some 2, setsJ1 = 1, setsJ2 = 0, estado = Finalizado\<rparr>,
          \<lparr>torneoId = 1, jugador1Id = 3, jugador2Id = None, ronda = 1, fase = ''Principal'',
           ganadorId = Some 3, setsJ1 = 1, setsJ2 = 0, estado = Finalizado\<rparr>,
          \<lparr>torneoId = 1, jugador1Id = 4, jugador2Id = Some 5, ronda = 1, fase = ''Principal'',
           ganadorId = None, setsJ1 = 0, setsJ2 = 0, estado = Pendiente\<rparr>]
   \<and> length (filter (\<lambda>m. jugador2Id m \<noteq> None \<and> estado m = Pendiente)
               (generateEliminationBracket spreadDraws fivePlayers 1))
       + length (filter (\<lambda>m. jugador2Id m = None \<and> estado m = Finalizado)
                   (generateEliminationBracket spreadDraws fivePlayers 1))
       = 4
   \<and> (length fivePlayers + 1) div 2 = 3"
  by code_simp

text \<open>
  C1, amended. \<open>xs\<close> is the shuffled slot list of \<open>n \<ge> 2\<close> players, for any outcome of
  the shuffle (draws in range): it is a permutation of the players and the BYEs, and its
  length is the least power of two that is at least \<open>n\<close>. The statement about the matches
  is for the draws that put no BYE into the first slot of a pair whose second slot holds a
  player; nothing is said of the other draws. For such a draw the generated matches are,
  pair of slots by pair of slots in order: for two players, one match of round 1 in phase
  Principal with the two as its players, no winner, sets 0-0 and state Pending; for a
  player followed by a BYE, one match with the player as its only player and as its
  winner, sets 1-0 and state Finished; for two BYEs, none. With \<open>pairs\<close> the number of
  Pending matches between two players and \<open>byes\<close> the number of Finished bye matches,
  there is no other match, \<open>2 pairs + byes = n\<close>, and \<open>pairs + byes\<close> lies between
  \<open>ceil(n/2)\<close> and half the slot count; it equals \<open>ceil(n/2)\<close> exactly when there is at most
  one bye match. When \<open>n\<close> is itself a power of two there are \<open>n div 2\<close> real matches and no
  bye match, whatever the draw.
\<close>

theorem elimination_bracket_counts:
  assumes "2 \<le> length ps" and "\<forall>i. rnd i \<le> i"
    and "n = length ps" and "xs = shuffledSlots rnd ps"
    and "ms = generateEliminationBracket rnd ps tid"
    and "pairs = length (filter (\<lambda>m. jugador2Id m \<noteq> None \<and> estado m = Pendiente) ms)"
    and "byes = length (filter (\<lambda>m. jugador2Id m = None \<and> estado m = Finalizado) ms)"
  shows "length xs = totalSlots n
       \<and> mset xs = mset (map Some ps) + replicate_mset (totalSlots n - n) None
       \<and> n \<le> totalSlots n \<and> (\<exists>r. totalSlots n = 2 ^ r) \<and> (\<forall>r. n \<le> 2 ^ r \<longrightarrow> totalSlots n \<le> 2 ^ r)
       \<and> ((\<forall>j < totalSlots n div 2. xs ! (2 * j) = None \<longrightarrow> xs ! (2 * j + 1) = None) \<longrightarrow>
            ms = concat (map (\<lambda>j. case xs ! (2 * j) of
                                    None \<Rightarrow> []
                                  | Some a \<Rightarrow>
                                      (case xs ! (2 * j + 1) of
                                         Some b \<Rightarrow>
                                           [\<lparr>torneoId = tid, jugador1Id = p_id a,
                                             jugador2Id = Some (p_id b), ronda = 1,
                                             fase = ''Principal'', ganadorId = None,
                                             setsJ1 = 0, setsJ2 = 0, estado = Pendiente\<rparr>]
                                       | None \<Rightarrow>
                                           [\<lparr>torneoId = tid, jugador1Id = p_id a,
                                             jugador2Id = None, ronda = 1,
                                             fase = ''Principal'', ganadorId = Some (p_id a),
                                             setsJ1 = 1, setsJ2 = 0, estado = Finalizado\<rparr>]))
                            [0 ..< totalSlots n div 2])
            \<and> pairs + byes = length ms
            \<and> 2 * pairs + byes = n
            \<and> (n + 1) div 2 \<le> pairs + byes \<and> pairs + byes \<le> totalSlots n div 2
            \<and> (pairs + byes = (n + 1) div 2 \<longleftrightarrow> byes \<le> 1))
       \<and> (totalSlots n = n \<longrightarrow> pairs = n div 2 \<and> byes = 0)"
proof -
  let ?p = "length (filter (\<lambda>m. jugador2Id m \<noteq> None) ms)"
  let ?b = "length (filter (\<lambda>m. jugador2Id m = None) ms)"
  have len: "length xs = totalSlots n"
    by (simp add: shuffledSlots_length assms(3,4))
  have ms: "ms = firstRoundFrom xs 0 (totalSlots n) tid"
    by (simp add: assms(3,4,5) generateEliminationBracket_def)
  have ev: "even (totalSlots n)"
    using totalSlots_even [of n] assms(1,3) by simp
  have ev0: "even (totalSlots n - 0)"
    using ev by simp
  have somes: "n = length (filter (\<lambda>x. x \<noteq> None) (drop 0 xs))"
    using shuffledSlots_somes [OF assms(2), of ps] by (simp add: assms(3,4))
  have shape: "\<forall>m \<in> set ms. (\<exists>a b. m = pendingMatch tid a b 1 ''Principal'')
                        \<or> (\<exists>a. m = byeMatch tid a 1 ''Principal'')"
    using firstRoundFrom_shape unfolding ms by blast
  have p: "pairs = ?p"
    by (simp only: assms(6) firstRound_filters(1) [OF shape])
  have b: "byes = ?b"
    by (simp only: assms(7) firstRound_filters(2) [OF shape])
  have total: "pairs + byes = length ms"
    unfolding p b using sum_length_filter_compl [of "\<lambda>m. jugador2Id m \<noteq> None" ms] by simp
  from firstRoundFrom_counts [OF len [symmetric] _ ev0 ms refl refl somes]
  have c: "?p + ?b \<le> totalSlots n div 2"
    "None \<notin> set xs \<longrightarrow> ?p = totalSlots n div 2 \<and> ?b = 0"
    by simp_all
  have full: "totalSlots n = n \<longrightarrow> pairs = n div 2 \<and> byes = 0"
    using c(2) shuffledSlots_full [OF assms(2), of ps] by (auto simp: assms(3,4) p b)
  have pow: "\<exists>r. totalSlots n = 2 ^ r"
    using assms(1,3) by (intro exI [of _ "numRounds n"]) (auto simp: totalSlots_def)
  have least: "\<forall>r. n \<le> 2 ^ r \<longrightarrow> totalSlots n \<le> 2 ^ r"
    using totalSlots_least by blast
  have perm: "mset xs = mset (map Some ps) + replicate_mset (totalSlots n - n) None"
    using shuffledSlots_mset [OF assms(2), of ps] by (simp add: assms(3,4))
  have closed: "ms = concat (map (\<lambda>j. case xs ! (2 * j) of
                                    None \<Rightarrow> []
                                  | Some a \<Rightarrow>
                                      (case xs ! (2 * j + 1) of
                                         Some b \<Rightarrow>
                                           [\<lparr>torneoId = tid, jugador1Id = p_id a,
                                             jugador2Id = Some (p_id b), ronda = 1,
                                             fase = ''Principal'', ganadorId = None,
                                             setsJ1 = 0, setsJ2 = 0, estado = Pendiente\<rparr>]
                                       | None \<Rightarrow>
                                           [\<lparr>torneoId = tid, jugador1Id = p_id a,
                                             jugador2Id = None, ronda = 1,
                                             fase = ''Principal'', ganadorId = Some (p_id a),
                                             setsJ1 = 1, setsJ2 = 0, estado = Finalizado\<rparr>]))
                            [0 ..< totalSlots n div 2])"
  proof -
    have h: "(totalSlots n + 1 - 0) div 2 = totalSlots n div 2"
      by (rule half_slots_even [OF ev])
    show ?thesis
      unfolding ms firstRoundFrom_concat h
    proof (rule arg_cong [where f = concat], rule map_cong [OF refl])
      fix j assume "j \<in> set [0 ..< totalSlots n div 2]"
      then have "2 * j + 1 < length xs"
        by (rule half_slot_index [OF ev len])
      then have "slot xs (0 + 2 * j) = xs ! (2 * j)" "slot xs (0 + 2 * j + 1) = xs ! (2 * j + 1)"
        by (simp_all add: slot_nth)
      then show "(case slot xs (0 + 2 * j) of
                    None \<Rightarrow> []
                  | Some a \<Rightarrow>
                      (case slot xs (0 + 2 * j + 1) of
                         Some b \<Rightarrow> [pendingMatch tid (p_id a) (p_id b) 1 ''Principal'']
                       | None \<Rightarrow> [byeMatch tid (p_id a) 1 ''Principal'']))
                = (case xs ! (2 * j) of
                     None \<Rightarrow> []
                   | Some a \<Rightarrow>
                       (case xs ! (2 * j + 1) of
                          Some b \<Rightarrow>
                            [\<lparr>torneoId = tid, jugador1Id = p_id a,
                              jugador2Id = Some (p_id b), ronda = 1,
                              fase = ''Principal'', ganadorId = None,
                              setsJ1 = 0, setsJ2 = 0, estado = Pendiente\<rparr>]
                        | None \<Rightarrow>
                            [\<lparr>torneoId = tid, jugador1Id = p_id a,
                              jugador2Id = None, ronda = 1,
                              fase = ''Principal'', ganadorId = Some (p_id a),
                              setsJ1 = 1, setsJ2 = 0, estado = Finalizado\<rparr>]))"
        by (simp add: pendingMatch_def byeMatch_def split: option.splits)
    qed
  qed
  have counts: "2 * pairs + byes = n \<and> (n + 1) div 2 \<le> pairs + byes
                  \<and> pairs + byes \<le> totalSlots n div 2
                  \<and> (pairs + byes = (n + 1) div 2 \<longleftrightarrow> byes \<le> 1)"
    if noDrop: "\<forall>j < totalSlots n div 2. xs ! (2 * j) = None \<longrightarrow> xs ! (2 * j + 1) = None"
  proof -
    have nd: "\<forall>j. 0 + 2 * j + 1 < totalSlots n \<longrightarrow> xs ! (0 + 2 * j) = None
                 \<longrightarrow> xs ! (0 + 2 * j + 1) = None"
    proof (intro allI impI)
      fix j assume a: "0 + 2 * j + 1 < totalSlots n" "xs ! (0 + 2 * j) = None"
      then have "j < totalSlots n div 2" by simp
      with noDrop a(2) show "xs ! (0 + 2 * j + 1) = None" by simp
    qed
    from firstRoundFrom_exact [OF len [symmetric] _ ev0 ms refl refl somes nd]
    have e: "2 * pairs + byes = n"
      by (simp add: p b)
    have c1: "pairs + byes \<le> totalSlots n div 2"
      using c(1) by (simp add: p b)
    show ?thesis
      by (rule bye_count_arith [OF e c1])
  qed
  have inner: "(\<forall>j < totalSlots n div 2. xs ! (2 * j) = None \<longrightarrow> xs ! (2 * j + 1) = None) \<longrightarrow>
            ms = concat (map (\<lambda>j. case xs ! (2 * j) of
                                    None \<Rightarrow> []
                                  | Some a \<Rightarrow>
                                      (case xs ! (2 * j + 1) of
                                         Some b \<Rightarrow>
                                           [\<lparr>torneoId = tid, jugador1Id = p_id a,
                                             jugador2Id = Some (p_id b), ronda = 1,
                                             fase = ''Principal'', ganadorId = None,
                                             setsJ1 = 0, setsJ2 = 0, estado = Pendiente\<rparr>]
                                       | None \<Rightarrow>
                                           [\<lparr>torneoId = tid, jugador1Id = p_id a,
                                             jugador2Id = None, ronda = 1,
                                             fase = ''Principal'', ganadorId = Some (p_id a),
                                             setsJ1 = 1, setsJ2 = 0, estado = Finalizado\<rparr>]))
                            [0 ..< totalSlots n div 2])
            \<and> pairs + byes = length ms
            \<and> 2 * pairs + byes = n
            \<and> (n + 1) div 2 \<le> pairs + byes \<and> pairs + byes \<le> totalSlots n div 2
            \<and> (pairs + byes = (n + 1) div 2 \<longleftrightarrow> byes \<le> 1)"
    by (rule impI) (rule conjI [OF closed conjI [OF total counts]])
  show ?thesis
    by (rule conjI [OF len conjI [OF perm conjI [OF totalSlots_ge conjI [OF pow
          conjI [OF least conjI [OF inner full]]]]]])
qed

theorem elimination_bracket_counts_witness:
  "map (map_option p_id) (shuffledSlots spreadDraws fivePlayers)
     = [Some 1, None, Some 2, None, Some 3, None, Some 4, Some 5]
   \<and> length (shuffledSlots spreadDraws fivePlayers) = 8
   \<and> generateEliminationBracket spreadDraws fivePlayers 1
       = [\<lparr>torneoId = 1, jugador1Id = 1, jugador2Id = None, ronda = 1, fase = ''Principal'',
           ganadorId = Some 1, setsJ1 = 1, setsJ2 = 0, estado = Finalizado\<rparr>,
          \<lparr>torneoId = 1, jugador1Id = 2, jugador2Id = None, ronda = 1, fase = ''Principal'',
           ganadorId = Some 2, setsJ1 = 1, setsJ2 = 0, estado = Finalizado\<rparr>,
          \<lparr>torneoId = 1, jugador1Id = 3, jugador2Id = None, ronda = 1, fase = ''Principal'',
           ganadorId = Some 3, setsJ1 = 1, setsJ2 = 0, estado = Finalizado\<rparr>,
          \<lparr>torneoId = 1, jugador1Id = 4, jugador2Id = Some 5, ronda = 1, fase = ''Principal'',
           ganadorId = None, setsJ1 = 0, setsJ2 = 0, estado = Pendiente\<rparr>]
   \<and> 2 * length (filter (\<lambda>m. jugador2Id m \<noteq> None \<and> estado m = Pendiente)
                    (generateEliminationBracket spreadDraws fivePlayers 1))
       + length (filter (\<lambda>m. jugador2Id m = None \<and> estado m = Finalizado)
                    (generateEliminationBracket spreadDraws fivePlayers 1)) = 5
   \<and> length (filter (\<lambda>m. jugador2Id m \<noteq> None \<and> estado m = Pendiente)
                (generateEliminationBracket (\<lambda>i. i) (players fourPlayerStore) 1)) = 2
   \<and> length (filter (\<lambda>m. jugador2Id m = None \<and> estado m = Finalizado)
                (generateEliminationBracket (\<lambda>i. i) (players fourPlayerStore) 1)) = 0"
proof -
  define xs where "xs = shuffledSlots spreadDraws fivePlayers"
  define ms where "ms = generateEliminationBracket spreadDraws fivePlayers 1"
  have h1: "2 \<le> length fivePlayers"
    by code_simp
  have h2: "\<forall>i. spreadDraws i \<le> i"
    by (simp add: spreadDraws_def)
  have n5: "length fivePlayers = 5" and s5: "totalSlots 5 = 8"
    by code_simp+
  have xs5: "xs = [Some (fivePlayers ! 0), None, Some (fivePlayers ! 1), None,
                   Some (fivePlayers ! 2), None, Some (fivePlayers ! 3), Some (fivePlayers ! 4)]"
    unfolding xs_def by code_simp
  have ids: "p_id (fivePlayers ! 0) = 1" "p_id (fivePlayers ! 1) = 2" "p_id (fivePlayers ! 2) = 3"
    "p_id (fivePlayers ! 3) = 4" "p_id (fivePlayers ! 4) = 5" "p_id (fivePlayers ! Suc 0) = 2"
    by code_simp+
  have slots: "map (map_option p_id) xs = [Some 1, None, Some 2, None, Some 3, None, Some 4, Some 5]"
    unfolding xs5 by (simp add: ids)
  have noDrop: "\<forall>j < totalSlots (length fivePlayers) div 2.
                  xs ! (2 * j) = None \<longrightarrow> xs ! (2 * j + 1) = None"
  proof (intro allI impI)
    fix j assume "j < totalSlots (length fivePlayers) div 2" and e: "xs ! (2 * j) = None"
    then have "j = 0 \<or> j = 1 \<or> j = 2 \<or> j = 3"
      unfolding n5 s5 by arith
    with e show "xs ! (2 * j + 1) = None"
      unfolding xs5 by (elim disjE) simp_all
  qed
  note five = elimination_bracket_counts [OF h1 h2 refl xs_def ms_def refl refl]
  have len: "length xs = 8"
    using five [THEN conjunct1] by (simp only: n5 s5)
  note inner = five [THEN conjunct2, THEN conjunct2, THEN conjunct2, THEN conjunct2,
                     THEN conjunct2, THEN conjunct1, THEN mp, OF noDrop]
  have "ms = concat (map (\<lambda>j. case xs ! (2 * j) of
                                    None \<Rightarrow> []
                                  | Some a \<Rightarrow>
                                      (case xs ! (2 * j + 1) of
                                         Some b \<Rightarrow>
                                           [\<lparr>torneoId = 1, jugador1Id = p_id a,
                                             jugador2Id = Some (p_id b), ronda = 1,
                                             fase = ''Principal'', ganadorId = None,
                                             setsJ1 = 0, setsJ2 = 0, estado = Pendiente\<rparr>]
                                       | None \<Rightarrow>
                                           [\<lparr>torneoId = 1, jugador1Id = p_id a,
                                             jugador2Id = None, ronda = 1,
                                             fase = ''Principal'', ganadorId = Some (p_id a),
                                             setsJ1 = 1, setsJ2 = 0, estado = Finalizado\<rparr>]))
                            [0 ..< 4])"
    using inner [THEN conjunct1] by (simp only: n5 s5) simp
  then have gen: "ms
       = [\<lparr>torneoId = 1, jugador1Id = 1, jugador2Id = None, ronda = 1, fase = ''Principal'',
           ganadorId = Some 1, setsJ1 = 1, setsJ2 = 0, estado = Finalizado\<rparr>,
          \<lparr>torneoId = 1, jugador1Id = 2, jugador2Id = None, ronda = 1, fase = ''Principal'',
           ganadorId = Some 2, setsJ1 = 1, setsJ2 = 0, estado = Finalizado\<rparr>,
          \<lparr>torneoId = 1, jugador1Id = 3, jugador2Id = None, ronda = 1, fase = ''Principal'',
           ganadorId = Some 3, setsJ1 = 1, setsJ2 = 0, estado = Finalizado\<rparr>,
          \<lparr>torneoId = 1, jugador1Id = 4, jugador2Id = Some 5, ronda = 1, fase = ''Principal'',
           ganadorId = None, setsJ1 = 0, setsJ2 = 0, estado = Pendiente\<rparr>]"
    unfolding xs5 by (simp add: upt_rec ids)
  have cnt: "2 * length (filter (\<lambda>m. jugador2Id m \<noteq> None \<and> estado m = Pendiente) ms)
               + length (filter (\<lambda>m. jugador2Id m = None \<and> estado m = Finalizado) ms) = 5"
    using inner [THEN conjunct2, THEN conjunct2, THEN conjunct1] by (simp only: n5)
  have g1: "2 \<le> length (players fourPlayerStore)"
    by code_simp
  have g2: "\<forall>i::nat. i \<le> i"
    by simp
  have n4: "length (players fourPlayerStore) = 4" and s4: "totalSlots 4 = 4"
    by code_simp+
  note four = elimination_bracket_counts [OF g1 g2 refl refl refl refl refl, of 1]
  have full: "length (filter (\<lambda>m. jugador2Id m \<noteq> None \<and> estado m = Pendiente)
                (generateEliminationBracket (\<lambda>i. i) (players fourPlayerStore) 1)) = 2
   \<and> length (filter (\<lambda>m. jugador2Id m = None \<and> estado m = Finalizado)
                (generateEliminationBracket (\<lambda>i. i) (players fourPlayerStore) 1)) = 0"
    using four [THEN conjunct2, THEN conjunct2, THEN conjunct2, THEN conjunct2,
                THEN conjunct2, THEN conjunct2]
    by (simp add: n4 s4)
  show ?thesis
    using slots len gen cnt full unfolding xs_def ms_def by simp
qed

subsection \<open>C2: the rows and points of a finalization\<close>

text \<open>
  C2 asks for one result row for every player of the tournament, ranked by wins. The
  standings are built from the winners recorded in the matches only, so a player who
  never won a match is missed: in the two-player tournament where A has beaten B,
  finalization completes and stores a row for A alone, although B is player 2 of the
  match. For the players who did win a match the rows, positions and points are as C2
  says (lemma \<open>finalize_results_for_winners\<close>).
\<close>

theorem finalize_skips_players_without_win:
  "torneoId (snd (matches playedDuelStore ! 0)) = 1
   \<and> jugador2Id (snd (matches playedDuelStore ! 0)) = Some 2
   \<and> map t_estado (tournaments (finalizeTournament 1 1 playedDuelStore)) = [Finalizado]
   \<and> map jugadorId (tournamentResults (finalizeTournament 1 1 playedDuelStore)) = [1]"
  by code_simp

subsection \<open>C3: the winner of a match in a reachable store\<close>

text \<open>
  C3 as stated asks that a winner be recorded only on a Finished match. The result route
  validates \<^verbatim>\<open>status\<close> against the three lifecycle values and stores the one it was
  sent: a complete result for player A submitted with \<^verbatim>\<open>'En curso'\<close> is accepted, and the
  match then records A as winner while its state is \<^verbatim>\<open>'En curso'\<close>. The store in which
  this happens is reached by generating the bracket of a two-player tournament.
\<close>

theorem winner_recorded_on_unfinished_match:
  "reachable {1} (snd (putResult 1 enCursoBody duelStore))
   \<and> fst (putResult 1 enCursoBody duelStore)
       = Inr (1, \<lparr>torneoId = 1, jugador1Id = 1, jugador2Id = Some 2, ronda = 1,
                   fase = ''Principal'', ganadorId = Some 1, setsJ1 = 2, setsJ2 = 0,
                   estado = EnCurso\<rparr>)
   \<and> matches (snd (putResult 1 enCursoBody duelStore))
       = [(1, \<lparr>torneoId = 1, jugador1Id = 1, jugador2Id = Some 2, ronda = 1,
                fase = ''Principal'', ganadorId = Some 1, setsJ1 = 2, setsJ2 = 0,
                estado = EnCurso\<rparr>)]"
proof -
  let ?m = "(1::nat, \<lparr>torneoId = 1, jugador1Id = 1, jugador2Id = Some 2, ronda = 1,
                   fase = ''Principal'', ganadorId = Some (1::nat), setsJ1 = 2, setsJ2 = 0,
                   estado = EnCurso\<rparr>)"
  have "matches newDuelStore = []"
    by (simp add: newDuelStore_def)
  then have "reachable {} newDuelStore"
    by (rule reach_init)
  then have "reachable {} (snd (generateBracket (\<lambda>i. i) (\<lambda>ps. ps) 1 [1, 2] newDuelStore))"
    by (rule reach_bracket) simp
  moreover have "snd (generateBracket (\<lambda>i. i) (\<lambda>ps. ps) 1 [1, 2] newDuelStore) = duelStore"
    by code_simp
  ultimately have r: "reachable {} duelStore"
    by simp
  have acc: "fst (putResult 1 enCursoBody duelStore) = Inr ?m"
    by code_simp
  then have put: "putResult 1 enCursoBody duelStore
                    = (Inr ?m, snd (putResult 1 enCursoBody duelStore))"
    by (metis prod.collapse)
  have st: "status enCursoBody \<noteq> ''Finalizado''"
    by (simp add: enCursoBody_def)
  have r1: "reachable {1} (snd (putResult 1 enCursoBody duelStore))"
    by (rule reach_unfinished [OF r put st])
  have ms: "matches (snd (putResult 1 enCursoBody duelStore)) = [?m]"
    by code_simp
  show ?thesis
    by (rule conjI [OF r1 conjI [OF acc ms]])
qed

text \<open>
  C3, amended. \<open>reachable P s\<close>: the store \<open>s\<close> is reached through the engine's operations
  (bracket generation, manual seeding, result recording with its progression and
  finalization, match start, tournament deletion), and \<open>P\<close> holds the ids of the matches
  that an accepted result submission has written with a status other than
  \<^verbatim>\<open>'Finalizado'\<close>. In every such store, every Finished match has a winner; the winner
  recorded in a match, Finished or not, is one of its two players (its sole player, for a
  bye); and a match that is not Finished records a winner only if its id is in \<open>P\<close>. An
  accepted result submission leaves its match in the store with the submitted winner and
  the state that was sent: with \<^verbatim>\<open>'Pendiente'\<close> or \<^verbatim>\<open>'En curso'\<close> the match records a winner
  without being Finished and its id joins \<open>P\<close>; with \<^verbatim>\<open>'Finalizado'\<close> the match is Finished
  and \<open>P\<close> stays as it is.
\<close>

theorem reachable_match_winner:
  assumes "reachable P s"
  shows "(\<forall>m \<in> set (matches s).
            (estado (snd m) = Finalizado \<longrightarrow> (\<exists>w. ganadorId (snd m) = Some w))
            \<and> (\<forall>w. ganadorId (snd m) = Some w \<longrightarrow>
                   w = jugador1Id (snd m) \<or> jugador2Id (snd m) = Some w)
            \<and> ((\<exists>w. ganadorId (snd m) = Some w) \<and> estado (snd m) \<noteq> Finalizado
                 \<longrightarrow> fst m \<in> P))
       \<and> (\<forall>mid body m' s'.
             putResult mid body s = (Inr m', s') \<longrightarrow>
               fst m' = mid \<and> m' \<in> set (matches s')
               \<and> ganadorId (snd m') = Some (winnerId body)
               \<and> (status body = ''Pendiente'' \<and> estado (snd m') = Pendiente
                    \<and> reachable (insert mid P) s'
                  \<or> status body = ''En curso'' \<and> estado (snd m') = EnCurso
                    \<and> reachable (insert mid P) s'
                  \<or> status body = ''Finalizado'' \<and> estado (snd m') = Finalizado
                    \<and> reachable P s'))"
proof (intro conjI ballI allI impI)
  fix m assume m: "m \<in> set (matches s)"
  from reachable_storeOk [OF assms] m have ok: "matchOk (snd m)"
    by (simp add: storeOk_def)
  from reachable_tracked [OF assms] m have tr: "fst m \<in> P \<or> settled (snd m)"
    unfolding tracked_def by blast
  show "estado (snd m) = Finalizado \<Longrightarrow> \<exists>w. ganadorId (snd m) = Some w"
    using ok by (auto simp: matchOk_def)
  show "w = jugador1Id (snd m) \<or> jugador2Id (snd m) = Some w"
    if "ganadorId (snd m) = Some w" for w
    using ok that by (auto simp: matchOk_def)
  show "fst m \<in> P" if "(\<exists>w. ganadorId (snd m) = Some w) \<and> estado (snd m) \<noteq> Finalizado"
    using tr that by (auto simp: settled_def)
next
  fix mid body m' s'
  assume put: "putResult mid body s = (Inr m', s')"
  note w = putResult_written [OF put]
  from w show "fst m' = mid" and "m' \<in> set (matches s')"
    and "ganadorId (snd m') = Some (winnerId body)"
    by simp_all
  from w have "statusEstado (status body) = Some (estado (snd m'))"
    by simp
  from statusEstado_cases [OF this]
  show "status body = ''Pendiente'' \<and> estado (snd m') = Pendiente
          \<and> reachable (insert mid P) s'
        \<or> status body = ''En curso'' \<and> estado (snd m') = EnCurso
          \<and> reachable (insert mid P) s'
        \<or> status body = ''Finalizado'' \<and> estado (snd m') = Finalizado
          \<and> reachable P s'"
  proof (elim disjE conjE)
    assume a: "status body = ''Pendiente''" "estado (snd m') = Pendiente"
    then have "status body \<noteq> ''Finalizado''" by simp
    from reach_unfinished [OF assms put this] a show ?thesis by simp
  next
    assume a: "status body = ''En curso''" "estado (snd m') = EnCurso"
    then have "status body \<noteq> ''Finalizado''" by simp
    from reach_unfinished [OF assms put this] a show ?thesis by simp
  next
    assume a: "status body = ''Finalizado''" "estado (snd m') = Finalizado"
    from reach_finished [OF assms put a(1)] a show ?thesis by simp
  qed
qed

theorem reachable_match_winner_witness:
  "reachable {} duelStore
   \<and> (1, \<lparr>torneoId = 1, jugador1Id = 1, jugador2Id = Some 2, ronda = 1,
          fase = ''Principal'', ganadorId = Some 1, setsJ1 = 2, setsJ2 = 0,
          estado = Pendiente\<rparr>)
       \<in> set (matches (snd (putResult 1 (enCursoBody\<lparr>status := ''Pendiente''\<rparr>) duelStore)))
   \<and> reachable {1} (snd (putResult 1 (enCursoBody\<lparr>status := ''Pendiente''\<rparr>) duelStore))
   \<and> (1, \<lparr>torneoId = 1, jugador1Id = 1, jugador2Id = Some 2, ronda = 1,
          fase = ''Principal'', ganadorId = Some 1, setsJ1 = 2, setsJ2 = 0,
          estado = EnCurso\<rparr>)
       \<in> set (matches (snd (putResult 1 enCursoBody duelStore)))
   \<and> reachable {1} (snd (putResult 1 enCursoBody duelStore))
   \<and> matches (snd (putResult 1 (enCursoBody\<lparr>status := ''Finalizado''\<rparr>) duelStore))
       = [(1, \<lparr>torneoId = 1, jugador1Id = 1, jugador2Id = Some 2, ronda = 1,
               fase = ''Principal'', ganadorId = Some 1, setsJ1 = 2, setsJ2 = 0,
               estado = Finalizado\<rparr>)]
   \<and> reachable {} (snd (putResult 1 (enCursoBody\<lparr>status := ''Finalizado''\<rparr>) duelStore))
   \<and> (\<exists>w. ganadorId (snd (hd (matches (snd (putResult 1
                 (enCursoBody\<lparr>status := ''Finalizado''\<rparr>) duelStore))))) = Some w)
   \<and> fst (hd (matches (snd (putResult 1 enCursoBody duelStore)))) \<in> {1}"
proof -
  let ?d = "\<lambda>st. \<lparr>torneoId = 1, jugador1Id = 1, jugador2Id = Some 2, ronda = 1,
                  fase = ''Principal'', ganadorId = Some (1::nat), setsJ1 = 2, setsJ2 = 0,
                  estado = st\<rparr>"
  let ?pe = "enCursoBody\<lparr>status := ''Pendiente''\<rparr>"
  let ?fi = "enCursoBody\<lparr>status := ''Finalizado''\<rparr>"
  have "matches newDuelStore = []"
    by (simp add: newDuelStore_def)
  then have "reachable {} newDuelStore"
    by (rule reach_init)
  then have "reachable {} (snd (generateBracket (\<lambda>i. i) (\<lambda>ps. ps) 1 [1, 2] newDuelStore))"
    by (rule reach_bracket) simp
  moreover have "snd (generateBracket (\<lambda>i. i) (\<lambda>ps. ps) 1 [1, 2] newDuelStore) = duelStore"
    by code_simp
  ultimately have r: "reachable {} duelStore"
    by simp
  note sub = reachable_match_winner [OF r, THEN conjunct2, rule_format]
  have "fst (putResult 1 ?pe duelStore) = Inr (1::nat, ?d Pendiente)"
    by code_simp
  then have pe: "putResult 1 ?pe duelStore = (Inr (1::nat, ?d Pendiente), snd (putResult 1 ?pe duelStore))"
    by (metis prod.collapse)
  have "fst (putResult 1 enCursoBody duelStore) = Inr (1::nat, ?d EnCurso)"
    by code_simp
  then have en: "putResult 1 enCursoBody duelStore
                   = (Inr (1::nat, ?d EnCurso), snd (putResult 1 enCursoBody duelStore))"
    by (metis prod.collapse)
  have "fst (putResult 1 ?fi duelStore) = Inr (1::nat, ?d Finalizado)"
    by code_simp
  then have fi: "putResult 1 ?fi duelStore
                   = (Inr (1::nat, ?d Finalizado), snd (putResult 1 ?fi duelStore))"
    by (metis prod.collapse)
  have s1: "status ?pe \<noteq> ''En curso''" "status ?pe \<noteq> ''Finalizado''"
    and s2: "status enCursoBody \<noteq> ''Pendiente''" "status enCursoBody \<noteq> ''Finalizado''"
    and s3: "status ?fi \<noteq> ''Pendiente''" "status ?fi \<noteq> ''En curso''"
    by (simp_all add: enCursoBody_def)
  have a: "(1::nat, ?d Pendiente) \<in> set (matches (snd (putResult 1 ?pe duelStore)))"
    by (rule sub [OF pe, THEN conjunct2, THEN conjunct1])
  from sub [OF pe, THEN conjunct2, THEN conjunct2, THEN conjunct2] s1
  have a2: "reachable {1} (snd (putResult 1 ?pe duelStore))"
    by blast
  have b: "(1::nat, ?d EnCurso) \<in> set (matches (snd (putResult 1 enCursoBody duelStore)))"
    by (rule sub [OF en, THEN conjunct2, THEN conjunct1])
  from sub [OF en, THEN conjunct2, THEN conjunct2, THEN conjunct2] s2
  have b2: "reachable {1} (snd (putResult 1 enCursoBody duelStore))"
    by blast
  from sub [OF fi, THEN conjunct2, THEN conjunct2, THEN conjunct2] s3
  have c: "reachable {} (snd (putResult 1 ?fi duelStore))"
    by blast
  have ms: "matches (snd (putResult 1 ?fi duelStore)) = [(1, ?d Finalizado)]"
    by code_simp
  let ?mf = "hd (matches (snd (putResult 1 ?fi duelStore)))"
  let ?me = "hd (matches (snd (putResult 1 enCursoBody duelStore)))"
  have mf: "?mf \<in> set (matches (snd (putResult 1 ?fi duelStore)))"
    unfolding ms by simp
  have ef: "estado (snd ?mf) = Finalizado"
    unfolding ms by simp
  have w: "\<exists>w. ganadorId (snd ?mf) = Some w"
    by (rule reachable_match_winner [OF c, THEN conjunct1, rule_format, OF mf,
              THEN conjunct1, THEN mp, OF ef])
  have mse: "matches (snd (putResult 1 enCursoBody duelStore)) = [(1, ?d EnCurso)]"
    by code_simp
  have me: "?me \<in> set (matches (snd (putResult 1 enCursoBody duelStore)))"
    and ee: "(\<exists>w. ganadorId (snd ?me) = Some w) \<and> estado (snd ?me) \<noteq> Finalizado"
    unfolding mse by simp_all
  have p: "fst ?me \<in> {1}"
    by (rule reachable_match_winner [OF b2, THEN conjunct1, rule_format, OF me,
              THEN conjunct2, THEN conjunct2, THEN mp, OF ee])
  show ?thesis
    by (rule conjI [OF r conjI [OF a conjI [OF a2 conjI [OF b conjI [OF b2 conjI [OF ms
          conjI [OF c conjI [OF w p]]]]]]]])
qed

subsection \<open>C4: a tied set in a submission\<close>

text \<open>
  C4 asks that a submission holding a set with equal scores be rejected. The route has no
  such check: the submission 11-5, 7-7, 11-9 for player A in a best-of-three match is
  accepted, the match is stored Finished 2-0, and the tied set is stored with player B as
  its winner.
\<close>

theorem tied_set_submission_accepted:
  "fst (putResult 1 tiedBody duelStore) =
     Inr (1, \<lparr>torneoId = 1, jugador1Id = 1, jugador2Id = Some 2, ronda = 1,
               fase = ''Principal'', ganadorId = Some 1, setsJ1 = 2,
               setsJ2 = 0, estado = Finalizado\<rparr>)
   \<and> sets (snd (putResult 1 tiedBody duelStore)) =
       [\<lparr>partidoId = 1, numeroSet = 1, puntosJ1 = 11, puntosJ2 = 5, set_ganadorId = Some 1\<rparr>,
        \<lparr>partidoId = 1, numeroSet = 2, puntosJ1 = 7, puntosJ2 = 7, set_ganadorId = Some 2\<rparr>,
        \<lparr>partidoId = 1, numeroSet = 3, puntosJ1 = 11, puntosJ2 = 9, set_ganadorId = Some 1\<rparr>]"
  by code_simp

subsection \<open>C5: the round robin schedule\<close>

text \<open>
  C5. Round-robin generation for a list of \<open>n \<ge> 2\<close> players with distinct ids creates
  exactly \<open>n (n - 1) / 2\<close> matches; their round numbers are exactly 1 to \<open>n - 1\<close> when
  \<open>n\<close> is even and 1 to \<open>n\<close> when \<open>n\<close> is odd (the phantom bye); every unordered pair
  of distinct players of the list is the pair of players of exactly one generated match;
  and every generated match is a Pending match between two different players of the list.
\<close>

theorem round_robin_schedule:
  assumes "2 \<le> length ps" and "distinct (map p_id ps)"
    and "n = length ps" and "ms = generateRoundRobinBracket ps tid"
  shows "length ms = n * (n - 1) div 2
       \<and> ronda ` set ms = {1 .. (if even n then n - 1 else n)}
       \<and> (\<forall>x \<in> set ps. \<forall>y \<in> set ps. x \<noteq> y \<longrightarrow>
             length (filter (\<lambda>m. (jugador1Id m = p_id x \<and> jugador2Id m = Some (p_id y))
                                  \<or> (jugador1Id m = p_id y \<and> jugador2Id m = Some (p_id x))) ms) = 1)
       \<and> (\<forall>m \<in> set ms. \<exists>x \<in> set ps. \<exists>y \<in> set ps.
             x \<noteq> y \<and> m = pendingMatch tid (p_id x) (p_id y) (ronda m) ''Principal'')"
proof (intro conjI ballI impI)
  show "length ms = n * (n - 1) div 2"
    unfolding assms(3,4) by (rule generateRoundRobinBracket_length [OF assms(1)])
next
  have "length (playersWithBye ps) - 1 = (if even n then n - 1 else n)"
    by (simp add: playersWithBye_length assms(3))
  then show "ronda ` set ms = {1 .. (if even n then n - 1 else n)}"
    unfolding assms(4) generateRoundRobinBracket_rounds [OF assms(1)] by (simp only:)
next
  fix x y
  assume "x \<in> set ps" "y \<in> set ps" "x \<noteq> y"
  then show "length (filter (\<lambda>m. (jugador1Id m = p_id x \<and> jugador2Id m = Some (p_id y))
                                  \<or> (jugador1Id m = p_id y \<and> jugador2Id m = Some (p_id x))) ms) = 1"
    unfolding assms(4) by (rule generateRoundRobinBracket_pair_once [OF assms(1,2)])
next
  fix m
  assume "m \<in> set ms"
  then show "\<exists>x \<in> set ps. \<exists>y \<in> set ps.
             x \<noteq> y \<and> m = pendingMatch tid (p_id x) (p_id y) (ronda m) ''Principal''"
    unfolding assms(4) by (rule generateRoundRobinBracket_shape [OF assms(1,2)])
qed

theorem round_robin_schedule_witness:
  "length (generateRoundRobinBracket fivePlayers 1) = 10
   \<and> ronda ` set (generateRoundRobinBracket fivePlayers 1) = {1 .. 5}
   \<and> length (filter (\<lambda>m. (jugador1Id m = 1 \<and> jugador2Id m = Some 2)
                          \<or> (jugador1Id m = 2 \<and> jugador2Id m = Some 1))
               (generateRoundRobinBracket fivePlayers 1)) = 1
   \<and> length (generateRoundRobinBracket (players fourPlayerStore) 1) = 6
   \<and> ronda ` set (generateRoundRobinBracket (players fourPlayerStore) 1) = {1 .. 3}"
proof -
  have h1: "2 \<le> length fivePlayers" and h2: "distinct (map p_id fivePlayers)"
    by code_simp+
  have n5: "length fivePlayers = 5"
    by code_simp
  have x: "fivePlayers ! 0 \<in> set fivePlayers" and y: "fivePlayers ! 1 \<in> set fivePlayers"
    and xy: "fivePlayers ! 0 \<noteq> fivePlayers ! 1"
    and ix: "p_id (fivePlayers ! 0) = 1" and iy: "p_id (fivePlayers ! 1) = 2"
    by (simp_all add: fivePlayers_def)
  have g1: "2 \<le> length (players fourPlayerStore)"
    and g2: "distinct (map p_id (players fourPlayerStore))"
    by code_simp+
  have n4: "length (players fourPlayerStore) = 4"
    by code_simp
  note five = round_robin_schedule [OF h1 h2 refl refl, of 1]
  note four = round_robin_schedule [OF g1 g2 refl refl, of 1]
  from five have a: "length (generateRoundRobinBracket fivePlayers 1) = 10"
    by (simp add: n5)
  from five have b: "ronda ` set (generateRoundRobinBracket fivePlayers 1) = {1 .. 5}"
    by (simp add: n5)
  from five x y xy have
    "length (filter (\<lambda>m. (jugador1Id m = p_id (fivePlayers ! 0)
                           \<and> jugador2Id m = Some (p_id (fivePlayers ! 1)))
                        \<or> (jugador1Id m = p_id (fivePlayers ! 1)
                           \<and> jugador2Id m = Some (p_id (fivePlayers ! 0))))
               (generateRoundRobinBracket fivePlayers 1)) = 1"
    by blast
  then have c: "length (filter (\<lambda>m. (jugador1Id m = 1 \<and> jugador2Id m = Some 2)
                          \<or> (jugador1Id m = 2 \<and> jugador2Id m = Some 1))
               (generateRoundRobinBracket fivePlayers 1)) = 1"
    by (simp only: ix iy)
  from four have d: "length (generateRoundRobinBracket (players fourPlayerStore) 1) = 6"
    by (simp add: n4)
  from four have e: "ronda ` set (generateRoundRobinBracket (players fourPlayerStore) 1) = {1 .. 3}"
    by (simp add: n4)
  from a b c d e show ?thesis by blast
qed

subsection \<open>C6: the next round pairs the winners of a finished cohort\<close>

text \<open>
  C6. \<open>rms\<close> is the cohort of the match \<open>cm\<close>: the matches of the store with its
  tournament, round and phase, in ascending id order; \<open>winners\<close> are the recorded winners
  of the cohort in that order, \<open>k\<close> their number. If some match of the cohort is not
  Finished, the store is left as it is: no match is created. If all are Finished and
  \<open>k \<ge> 2\<close>, exactly \<open>(k + 1) div 2\<close> matches are appended with fresh consecutive ids and
  nothing else changes: the match number \<open>i\<close> has the winners \<open>2 i\<close> and \<open>2 i + 1\<close> as its
  players, round + 1, the same phase, no winner, sets 0-0 and state Pending; for odd \<open>k\<close>
  the last one has the leftover winner as its only player and as its recorded winner,
  sets 1-0 and state Finished. Every accepted result submission runs this step on the
  match it has just written, over the store with that match updated and its sets replaced.
\<close>

theorem generateNextMatch_pairs_winners:
  assumes "rms = sort_key fst
                   (filter (\<lambda>m. torneoId (snd m) = torneoId (snd cm)
                               \<and> ronda (snd m) = ronda (snd cm)
                               \<and> fase (snd m) = fase (snd cm)) (matches s))"
    and "winners = map (\<lambda>m. the (ganadorId (snd m)))
                     (filter (\<lambda>m. ganadorId (snd m) \<noteq> None \<and> ganadorId (snd m) \<noteq> Some 0) rms)"
    and "k = length winners"
  shows "sorted (map fst rms)
       \<and> ((\<exists>m \<in> set rms. estado (snd m) \<noteq> Finalizado) \<longrightarrow> generateNextMatch cm s = s)
       \<and> ((\<forall>m \<in> set rms. estado (snd m) = Finalizado) \<and> 2 \<le> k \<longrightarrow>
            (\<exists>new. generateNextMatch cm s =
                      s\<lparr>matches := matches s @ zip [matchSeq s ..< matchSeq s + length new] new,
                        matchSeq := matchSeq s + length new\<rparr>
                 \<and> length new = (k + 1) div 2
                 \<and> (\<forall>i. 2 * i + 1 < k \<longrightarrow>
                        new ! i = \<lparr>torneoId = torneoId (snd cm),
                                   jugador1Id = winners ! (2 * i),
                                   jugador2Id = Some (winners ! (2 * i + 1)),
                                   ronda = ronda (snd cm) + 1, fase = fase (snd cm),
                                   ganadorId = None, setsJ1 = 0, setsJ2 = 0,
                                   estado = Pendiente\<rparr>)
                 \<and> (odd k \<longrightarrow>
                        new ! (k div 2) = \<lparr>torneoId = torneoId (snd cm),
                                           jugador1Id = winners ! (k - 1),
                                           jugador2Id = None,
                                           ronda = ronda (snd cm) + 1, fase = fase (snd cm),
                                           ganadorId = Some (winners ! (k - 1)),
                                           setsJ1 = 1, setsJ2 = 0, estado = Finalizado\<rparr>)))
       \<and> (\<forall>mid body s0 s'.
             putResult mid body s0 = (Inr cm, s')
             \<and> s = s0\<lparr>matches := map (\<lambda>m. if fst m = mid then cm else m) (matches s0),
                      sets := filter (\<lambda>r. partidoId r \<noteq> mid) (sets s0)
                                @ map (\<lambda>(index, st).
                                         \<lparr>partidoId = mid, numeroSet = index + 1,
                                          puntosJ1 = player1Score st, puntosJ2 = player2Score st,
                                          set_ganadorId =
                                            (if player1Score st > player2Score st
                                             then Some (jugador1Id (snd cm))
                                             else jugador2Id (snd cm))\<rparr>)
                                    (zip [0 ..< length (b_sets body)] (b_sets body))\<rparr>
             \<longrightarrow> fst cm = mid \<and> s' = generateNextMatch cm s)"
proof (intro conjI impI allI)
  have rms: "rms = roundMatches cm s"
    by (simp add: assms(1) roundMatches_def)
  have win: "winners = roundWinners rms"
    unfolding assms(2) roundWinners_def
    by (induction rms) (auto simp: List.map_filter_simps split: option.splits)
  have all: "list_all (\<lambda>m. estado (snd m) = Finalizado) rms
               \<longleftrightarrow> (\<forall>m \<in> set rms. estado (snd m) = Finalizado)"
    by (simp add: list_all_iff)
  show "sorted (map fst rms)"
    unfolding rms by (rule roundMatches_sorted)
  {
    assume "\<exists>m \<in> set rms. estado (snd m) \<noteq> Finalizado"
    then show "generateNextMatch cm s = s"
      using all by (auto simp: generateNextMatch_def rms)
  }
  {
    assume a: "(\<forall>m \<in> set rms. estado (snd m) = Finalizado) \<and> 2 \<le> k"
    let ?new = "nextMatchesFrom winners 0 (torneoId (snd cm)) (ronda (snd cm) + 1) (fase (snd cm))"
    have gen: "generateNextMatch cm s = createManyMatches ?new s"
      using a all win rms assms(3) by (simp add: generateNextMatch_def Let_def)
    have len: "length ?new = (k + 1) div 2"
      by (simp add: nextMatchesFrom_length assms(3))
    have pend: "\<forall>i. 2 * i + 1 < k \<longrightarrow>
                  ?new ! i = pendingMatch (torneoId (snd cm)) (winners ! (2 * i))
                               (winners ! (2 * i + 1)) (ronda (snd cm) + 1) (fase (snd cm))"
      using nextMatchesFrom_nth_pending [of 0 _ winners] by (simp add: assms(3))
    have bye: "odd k \<longrightarrow>
                 ?new ! (k div 2) = byeMatch (torneoId (snd cm)) (winners ! (k - 1))
                                      (ronda (snd cm) + 1) (fase (snd cm))"
    proof
      assume "odd k"
      then have e: "0 + 2 * (k div 2) + 1 = length winners"
        by (simp add: assms(3))
      have "2 * (k div 2) = k - 1"
        using \<open>odd k\<close> by presburger
      with nextMatchesFrom_nth_bye [OF e] show "?new ! (k div 2) = byeMatch (torneoId (snd cm))
          (winners ! (k - 1)) (ronda (snd cm) + 1) (fase (snd cm))"
        by simp
    qed
    show "\<exists>new. generateNextMatch cm s =
                      s\<lparr>matches := matches s @ zip [matchSeq s ..< matchSeq s + length new] new,
                        matchSeq := matchSeq s + length new\<rparr>
                 \<and> length new = (k + 1) div 2
                 \<and> (\<forall>i. 2 * i + 1 < k \<longrightarrow>
                        new ! i = \<lparr>torneoId = torneoId (snd cm),
                                   jugador1Id = winners ! (2 * i),
                                   jugador2Id = Some (winners ! (2 * i + 1)),
                                   ronda = ronda (snd cm) + 1, fase = fase (snd cm),
                                   ganadorId = None, setsJ1 = 0, setsJ2 = 0,
                                   estado = Pendiente\<rparr>)
                 \<and> (odd k \<longrightarrow>
                        new ! (k div 2) = \<lparr>torneoId = torneoId (snd cm),
                                           jugador1Id = winners ! (k - 1),
                                           jugador2Id = None,
                                           ronda = ronda (snd cm) + 1, fase = fase (snd cm),
                                           ganadorId = Some (winners ! (k - 1)),
                                           setsJ1 = 1, setsJ2 = 0, estado = Finalizado\<rparr>)"
      using gen len pend bye
      by (intro exI [of _ ?new]) (simp add: createManyMatches_def pendingMatch_def byeMatch_def)
  }
  fix mid body s0 s'
  assume p: "putResult mid body s0 = (Inr cm, s')
             \<and> s = s0\<lparr>matches := map (\<lambda>m. if fst m = mid then cm else m) (matches s0),
                      sets := filter (\<lambda>r. partidoId r \<noteq> mid) (sets s0)
                                @ map (\<lambda>(index, st).
                                         \<lparr>partidoId = mid, numeroSet = index + 1,
                                          puntosJ1 = player1Score st, puntosJ2 = player2Score st,
                                          set_ganadorId =
                                            (if player1Score st > player2Score st
                                             then Some (jugador1Id (snd cm))
                                             else jugador2Id (snd cm))\<rparr>)
                                    (zip [0 ..< length (b_sets body)] (b_sets body))\<rparr>"
  then obtain m where f: "findMatch mid s0 = Some m"
    by (auto simp: putResult_def split: option.splits)
  from putResult_accepted [OF conjunct1 [OF p] f] obtain st where
    cm: "cm = (mid, (snd m)\<lparr>setsJ1 := fst (countSets (b_sets body) (0, 0)),
                            setsJ2 := snd (countSets (b_sets body) (0, 0)),
                            ganadorId := Some (winnerId body), estado := st\<rparr>)"
    and s': "s' = generateNextMatch cm
                    (replaceSets mid (setsToCreate mid (snd m) (b_sets body))
                       (updateMatch mid (\<lambda>_. snd cm) s0))"
    by blast
  show "fst cm = mid"
    by (simp add: cm)
  have j: "jugador1Id (snd cm) = jugador1Id (snd m)" "jugador2Id (snd cm) = jugador2Id (snd m)"
    by (simp_all add: cm)
  have u: "map (\<lambda>x. if fst x = mid then (fst x, snd cm) else x) (matches s0)
             = map (\<lambda>x. if fst x = mid then cm else x) (matches s0)"
    by (rule map_cong) (simp_all add: cm)
  have "replaceSets mid (setsToCreate mid (snd m) (b_sets body))
          (updateMatch mid (\<lambda>_. snd cm) s0) = s"
    unfolding conjunct2 [OF p] replaceSets_def updateMatch_def setsToCreate_def j
    by (simp add: u)
  with s' show "s' = generateNextMatch cm s"
    by simp
qed

theorem generateNextMatch_pairs_winners_witness:
  "fst (putResult 3 roundClosingBody openRoundStore) =
     Inr (3, \<lparr>torneoId = 1, jugador1Id = 5, jugador2Id = Some 6, ronda = 1,
              fase = ''Principal'', ganadorId = Some 5, setsJ1 = 2, setsJ2 = 0,
              estado = Finalizado\<rparr>)
   \<and> matches (snd (putResult 3 roundClosingBody openRoundStore)) =
       [(1, wonMatch 1 1 2), (2, wonMatch 1 3 4),
        (3, \<lparr>torneoId = 1, jugador1Id = 5, jugador2Id = Some 6, ronda = 1,
             fase = ''Principal'', ganadorId = Some 5, setsJ1 = 2, setsJ2 = 0,
             estado = Finalizado\<rparr>),
        (4, \<lparr>torneoId = 1, jugador1Id = 1, jugador2Id = Some 3, ronda = 2,
             fase = ''Principal'', ganadorId = None, setsJ1 = 0, setsJ2 = 0,
             estado = Pendiente\<rparr>),
        (5, \<lparr>torneoId = 1, jugador1Id = 5, jugador2Id = None, ronda = 2,
             fase = ''Principal'', ganadorId = Some 5, setsJ1 = 1, setsJ2 = 0,
             estado = Finalizado\<rparr>)]
   \<and> estado (snd (matches openRoundStore ! 2)) = Pendiente
   \<and> generateNextMatch (1, wonMatch 1 1 2) openRoundStore = openRoundStore"
proof -
  let ?d = "\<lparr>torneoId = 1, jugador1Id = 5, jugador2Id = Some 6, ronda = 1,
             fase = ''Principal'', ganadorId = Some (5::nat), setsJ1 = 2, setsJ2 = 0,
             estado = Finalizado\<rparr>"
  let ?cm = "(3::nat, ?d)"
  let ?body = roundClosingBody
  define S where "S = openRoundStore\<lparr>matches := map (\<lambda>m. if fst m = 3 then ?cm else m) (matches openRoundStore),
              sets := filter (\<lambda>r. partidoId r \<noteq> 3) (sets openRoundStore)
                        @ map (\<lambda>(index, st).
                                 \<lparr>partidoId = 3, numeroSet = index + 1,
                                  puntosJ1 = player1Score st, puntosJ2 = player2Score st,
                                  set_ganadorId =
                                    (if player1Score st > player2Score st
                                     then Some (jugador1Id (snd ?cm))
                                     else jugador2Id (snd ?cm))\<rparr>)
                            (zip [0 ..< length (b_sets ?body)] (b_sets ?body))\<rparr>"
  let ?rms = "sort_key fst
                (filter (\<lambda>m. torneoId (snd m) = torneoId (snd ?cm)
                            \<and> ronda (snd m) = ronda (snd ?cm)
                            \<and> fase (snd m) = fase (snd ?cm)) (matches S))"
  let ?winners = "map (\<lambda>m. the (ganadorId (snd m)))
                    (filter (\<lambda>m. ganadorId (snd m) \<noteq> None \<and> ganadorId (snd m) \<noteq> Some 0) ?rms)"
  note inst = generateNextMatch_pairs_winners [of ?rms ?cm S ?winners "length ?winners",
      OF refl refl refl]
  have ms: "matches S = [(1, wonMatch 1 1 2), (2, wonMatch 1 3 4), ?cm]"
    by (simp add: S_def openRoundStore_def threeWinnerStore_def pendingMatch_def)
  have seq: "matchSeq S = 4"
    by (simp add: S_def openRoundStore_def threeWinnerStore_def)
  have rms: "?rms = [(1, wonMatch 1 1 2), (2, wonMatch 1 3 4), ?cm]"
    unfolding ms by (simp add: wonMatch_def)
  have w: "?winners = [1, 3, 5]"
    unfolding rms by (simp add: wonMatch_def)
  have fin: "\<forall>m \<in> set ?rms. estado (snd m) = Finalizado"
    unfolding rms by (simp add: wonMatch_def)
  have acc: "fst (putResult 3 ?body openRoundStore) = Inr ?cm"
    by code_simp
  then have put: "putResult 3 ?body openRoundStore
                    = (Inr ?cm, snd (putResult 3 ?body openRoundStore))"
    by (metis prod.collapse)
  have link: "snd (putResult 3 ?body openRoundStore) = generateNextMatch ?cm S"
    by (rule conjunct2 [OF inst [THEN conjunct2, THEN conjunct2, THEN conjunct2, rule_format,
                                 OF conjI [OF put S_def]]])
  have k2: "2 \<le> length ?winners"
    unfolding w by simp
  from inst [THEN conjunct2, THEN conjunct2, THEN conjunct1, THEN mp, OF conjI [OF fin k2]]
  obtain new where
    g: "generateNextMatch ?cm S =
          S\<lparr>matches := matches S @ zip [matchSeq S ..< matchSeq S + length new] new,
             matchSeq := matchSeq S + length new\<rparr>"
    and l: "length new = (length ?winners + 1) div 2"
    and p: "\<forall>i. 2 * i + 1 < length ?winners \<longrightarrow>
              new ! i = \<lparr>torneoId = torneoId (snd ?cm),
                         jugador1Id = ?winners ! (2 * i),
                         jugador2Id = Some (?winners ! (2 * i + 1)),
                         ronda = ronda (snd ?cm) + 1, fase = fase (snd ?cm),
                         ganadorId = None, setsJ1 = 0, setsJ2 = 0,
                         estado = Pendiente\<rparr>"
    and b: "odd (length ?winners) \<longrightarrow>
              new ! (length ?winners div 2) = \<lparr>torneoId = torneoId (snd ?cm),
                         jugador1Id = ?winners ! (length ?winners - 1),
                         jugador2Id = None,
                         ronda = ronda (snd ?cm) + 1, fase = fase (snd ?cm),
                         ganadorId = Some (?winners ! (length ?winners - 1)),
                         setsJ1 = 1, setsJ2 = 0, estado = Finalizado\<rparr>"
    by (elim exE conjE) (rule that)
  from l have l2: "length new = 2"
    unfolding w by simp
  from p have p0: "new ! 0 = \<lparr>torneoId = 1, jugador1Id = 1, jugador2Id = Some 3, ronda = 2,
             fase = ''Principal'', ganadorId = None, setsJ1 = 0, setsJ2 = 0,
             estado = Pendiente\<rparr>"
    unfolding w by simp
  from b have b1: "new ! 1 = \<lparr>torneoId = 1, jugador1Id = 5, jugador2Id = None, ronda = 2,
             fase = ''Principal'', ganadorId = Some 5, setsJ1 = 1, setsJ2 = 0,
             estado = Finalizado\<rparr>"
    unfolding w by simp
  have new: "new = [\<lparr>torneoId = 1, jugador1Id = 1, jugador2Id = Some 3, ronda = 2,
             fase = ''Principal'', ganadorId = None, setsJ1 = 0, setsJ2 = 0,
             estado = Pendiente\<rparr>, \<lparr>torneoId = 1, jugador1Id = 5, jugador2Id = None, ronda = 2,
             fase = ''Principal'', ganadorId = Some 5, setsJ1 = 1, setsJ2 = 0,
             estado = Finalizado\<rparr>]"
    using list2 [OF l2] p0 b1 by simp
  have part1: "matches (snd (putResult 3 ?body openRoundStore)) =
       [(1, wonMatch 1 1 2), (2, wonMatch 1 3 4), ?cm,
        (4, \<lparr>torneoId = 1, jugador1Id = 1, jugador2Id = Some 3, ronda = 2,
             fase = ''Principal'', ganadorId = None, setsJ1 = 0, setsJ2 = 0,
             estado = Pendiente\<rparr>),
        (5, \<lparr>torneoId = 1, jugador1Id = 5, jugador2Id = None, ronda = 2,
             fase = ''Principal'', ganadorId = Some 5, setsJ1 = 1, setsJ2 = 0,
             estado = Finalizado\<rparr>)]"
    unfolding link g by (simp add: ms seq new upt_rec)
  let ?cm1 = "(1::nat, wonMatch 1 1 2)"
  let ?rms1 = "sort_key fst
                (filter (\<lambda>m. torneoId (snd m) = torneoId (snd ?cm1)
                            \<and> ronda (snd m) = ronda (snd ?cm1)
                            \<and> fase (snd m) = fase (snd ?cm1)) (matches openRoundStore))"
  have open3: "estado (snd (matches openRoundStore ! 2)) = Pendiente"
    by (simp add: openRoundStore_def pendingMatch_def)
  have mem: "matches openRoundStore ! 2 \<in> set ?rms1"
    by (simp add: openRoundStore_def pendingMatch_def wonMatch_def)
  have nfin: "\<exists>m \<in> set ?rms1. estado (snd m) \<noteq> Finalizado"
    by (rule bexI [OF _ mem]) (simp add: open3)
  have part2: "generateNextMatch ?cm1 openRoundStore = openRoundStore"
    by (rule generateNextMatch_pairs_winners [of ?rms1 ?cm1 openRoundStore _ _,
               OF refl refl refl, THEN conjunct2, THEN conjunct1, THEN mp, OF nfin])
  show ?thesis
    using acc part1 open3 part2 by simp
qed

subsection \<open>C7: finalizing twice\<close>

text \<open>
  C7. Invoking finalization twice in sequence on the same tournament is a no-op the second
  time: the store after the second call is the store after the first, so no result row is
  added, no player's points change and the tournament is as the first call left it. The
  first call completes when every recorded winner is a row of the players table.
\<close>

theorem finalizeTournament_twice:
  assumes "winnersRegistered tid s"
  shows "finalizeTournament tid w2 (finalizeTournament tid w1 s) = finalizeTournament tid w1 s"
proof (cases "findTournament tid s")
  case None
  then show ?thesis by (simp add: finalizeTournament_missing)
next
  case (Some t)
  show ?thesis
  proof (cases "t_estado t = Finalizado")
    case True
    with Some show ?thesis by (simp add: finalizeTournament_noop)
  next
    case False
    let ?rows = "buildResults tid (calculateFinalPositions (tournamentMatches tid s))"
    from finalizeTournament_completes [OF Some False assms refl, of w1] obtain ps' where
      fin: "finalizeTournament tid w1 s =
              setTournamentEstado tid Finalizado
                (updateRankings (s\<lparr>tournamentResults := tournamentResults s @ ?rows,
                                   players := ps'\<rparr>))"
      by blast
    let ?s1 = "updateRankings (s\<lparr>tournamentResults := tournamentResults s @ ?rows, players := ps'\<rparr>)"
    have "findTournament tid ?s1 = Some t"
      using Some by (simp add: findTournament_cong [of ?s1 s])
    then have "findTournament tid (finalizeTournament tid w1 s) = Some (t\<lparr>t_estado := Finalizado\<rparr>)"
      by (simp add: fin findTournament_setTournamentEstado)
    then show ?thesis
      by (rule finalizeTournament_noop) simp
  qed
qed

theorem finalizeTournament_twice_witness:
  "finalizeTournament 1 2 (finalizeTournament 1 1 playedDuelStore)
     = finalizeTournament 1 1 playedDuelStore
   \<and> tournamentResults (finalizeTournament 1 1 playedDuelStore)
       = [\<lparr>r_torneoId = 1, jugadorId = 1, posicionFinal = 1, puntosGanados = 100\<rparr>]
   \<and> map puntos (players (finalizeTournament 1 1 playedDuelStore)) = [100, 0]
   \<and> map t_estado (tournaments (finalizeTournament 1 1 playedDuelStore)) = [Finalizado]"
proof -
  have h: "winnersRegistered 1 playedDuelStore"
    by code_simp
  have "tournamentResults (finalizeTournament 1 1 playedDuelStore)
          = [\<lparr>r_torneoId = 1, jugadorId = 1, posicionFinal = 1, puntosGanados = 100\<rparr>]"
    by code_simp
  moreover have "map puntos (players (finalizeTournament 1 1 playedDuelStore)) = [100, 0]"
    by code_simp
  moreover have "map t_estado (tournaments (finalizeTournament 1 1 playedDuelStore)) = [Finalizado]"
    by code_simp
  ultimately show ?thesis
    using finalizeTournament_twice [OF h, of 2 1] by simp
qed

subsection \<open>C8: deleting a tournament takes back the points it awarded\<close>

text \<open>
  C8. A deletion that is carried out (the tournament exists, and it has no match or the
  request forces the deletion) on a store whose result rows of the tournament all name
  rows of the players table answers with the number of those rows and the sum of their
  points, removes exactly those rows, and lowers every player's cumulative points by the
  points the rows of that tournament hold for that player. Hence finalizing a tournament
  that has no result row yet and then deleting it gives every player the points held
  before the finalization, and the results table is as before.
\<close>

theorem delete_reverses_award:
  "(findTournament tid s = Some t
      \<and> (filter (\<lambda>m. torneoId (snd m) = tid) (matches s) = [] \<or> forceTruthy force)
      \<and> (\<forall>r \<in> set (tournamentResults s). r_torneoId r = tid \<longrightarrow> jugadorId r \<in> p_id ` set (players s))
    \<longrightarrow> fst (deleteTournament tid force s)
          = Inr (length (filter (\<lambda>r. r_torneoId r = tid) (tournamentResults s)),
                 sum_list (map puntosGanados (filter (\<lambda>r. r_torneoId r = tid) (tournamentResults s))))
        \<and> tournamentResults (snd (deleteTournament tid force s))
            = filter (\<lambda>r. r_torneoId r \<noteq> tid) (tournamentResults s)
        \<and> map p_id (players (snd (deleteTournament tid force s))) = map p_id (players s)
        \<and> map puntos (players (snd (deleteTournament tid force s)))
            = map (\<lambda>p. puntos p
                        - pointsFor (filter (\<lambda>r. r_torneoId r = tid) (tournamentResults s)) (p_id p))
                  (players s))
   \<and> (findTournament tid s0 = Some t0 \<and> t_estado t0 \<noteq> Finalizado \<and> winnersRegistered tid s0
      \<and> filter (\<lambda>r. r_torneoId r = tid) (tournamentResults s0) = []
      \<and> (filter (\<lambda>m. torneoId (snd m) = tid) (matches s0) = [] \<or> forceTruthy force)
    \<longrightarrow> map p_id (players (snd (deleteTournament tid force (finalizeTournament tid w s0))))
           = map p_id (players s0)
        \<and> map puntos (players (snd (deleteTournament tid force (finalizeTournament tid w s0))))
           = map puntos (players s0)
        \<and> tournamentResults (snd (deleteTournament tid force (finalizeTournament tid w s0)))
           = tournamentResults s0)"
proof (intro conjI impI)
  assume a: "findTournament tid s = Some t
      \<and> (filter (\<lambda>m. torneoId (snd m) = tid) (matches s) = [] \<or> forceTruthy force)
      \<and> (\<forall>r \<in> set (tournamentResults s). r_torneoId r = tid \<longrightarrow> jugadorId r \<in> p_id ` set (players s))"
  then have a1: "findTournament tid s = Some t"
    and a2: "filter (\<lambda>m. torneoId (snd m) = tid) (matches s) = [] \<or> forceTruthy force"
    and a3: "\<forall>r \<in> set (tournamentResults s). r_torneoId r = tid \<longrightarrow> jugadorId r \<in> p_id ` set (players s)"
    by blast+
  note e = deleteTournament_effect [OF a1 a2 a3 refl]
  from e show "fst (deleteTournament tid force s)
          = Inr (length (filter (\<lambda>r. r_torneoId r = tid) (tournamentResults s)),
                 sum_list (map puntosGanados (filter (\<lambda>r. r_torneoId r = tid) (tournamentResults s))))"
    by blast
  from e show "tournamentResults (snd (deleteTournament tid force s))
            = filter (\<lambda>r. r_torneoId r \<noteq> tid) (tournamentResults s)"
    by blast
  from e show "map p_id (players (snd (deleteTournament tid force s))) = map p_id (players s)"
    by blast
  from e show "map puntos (players (snd (deleteTournament tid force s)))
            = map (\<lambda>p. puntos p
                        - pointsFor (filter (\<lambda>r. r_torneoId r = tid) (tournamentResults s)) (p_id p))
                  (players s)"
    by blast
next
  assume b: "findTournament tid s0 = Some t0 \<and> t_estado t0 \<noteq> Finalizado \<and> winnersRegistered tid s0
      \<and> filter (\<lambda>r. r_torneoId r = tid) (tournamentResults s0) = []
      \<and> (filter (\<lambda>m. torneoId (snd m) = tid) (matches s0) = [] \<or> forceTruthy force)"
  then have b1: "findTournament tid s0 = Some t0" and b2: "t_estado t0 \<noteq> Finalizado"
    and b3: "winnersRegistered tid s0"
    and b4: "filter (\<lambda>r. r_torneoId r = tid) (tournamentResults s0) = []"
    and b5: "filter (\<lambda>m. torneoId (snd m) = tid) (matches s0) = [] \<or> forceTruthy force"
    by blast+
  note f = finalize_then_delete [OF b1 b2 b3 b4 b5, of w]
  from f show "map p_id (players (snd (deleteTournament tid force (finalizeTournament tid w s0))))
           = map p_id (players s0)" by blast
  from f show "map puntos (players (snd (deleteTournament tid force (finalizeTournament tid w s0))))
           = map puntos (players s0)" by blast
  from f show "tournamentResults (snd (deleteTournament tid force (finalizeTournament tid w s0)))
           = tournamentResults s0" by blast
qed

theorem delete_reverses_award_witness:
  "fst (deleteTournament 1 (Some ''true'') (finalizeTournament 1 1 fourPlayerStore)) = Inr (2, 175)
   \<and> map puntos (players (finalizeTournament 1 1 fourPlayerStore)) = [110, 20, 105, 40]
   \<and> map puntos (players (snd (deleteTournament 1 (Some ''true'')
                                  (finalizeTournament 1 1 fourPlayerStore)))) = [10, 20, 30, 40]
   \<and> tournamentResults (snd (deleteTournament 1 (Some ''true'')
                                  (finalizeTournament 1 1 fourPlayerStore))) = []"
proof -
  let ?before = "\<lparr>t_id = 1, tipo = EliminacionDirecta, t_estado = EnCurso, setsPorPartido = 3\<rparr>"
  let ?after = "\<lparr>t_id = 1, tipo = EliminacionDirecta, t_estado = Finalizado, setsPorPartido = 3\<rparr>"
  let ?s = "finalizeTournament 1 1 fourPlayerStore"
  let ?f = "Some ''true''"
  note inst = delete_reverses_award [of 1 ?s ?after ?f fourPlayerStore ?before 1]
  have a1: "findTournament 1 ?s = Some ?after" by code_simp
  have a2: "forceTruthy ?f" by simp
  have a3: "\<forall>r \<in> set (tournamentResults ?s). r_torneoId r = 1 \<longrightarrow> jugadorId r \<in> p_id ` set (players ?s)"
    by code_simp
  have b1: "findTournament 1 fourPlayerStore = Some ?before" by code_simp
  have b2: "t_estado ?before \<noteq> Finalizado" by simp
  have b3: "winnersRegistered 1 fourPlayerStore" by code_simp
  have b4: "filter (\<lambda>r. r_torneoId r = 1) (tournamentResults fourPlayerStore) = []" by code_simp
  from inst a1 a2 a3 have
    "fst (deleteTournament 1 ?f ?s)
       = Inr (length (filter (\<lambda>r. r_torneoId r = 1) (tournamentResults ?s)),
              sum_list (map puntosGanados (filter (\<lambda>r. r_torneoId r = 1) (tournamentResults ?s))))"
    by blast
  moreover have "length (filter (\<lambda>r. r_torneoId r = 1) (tournamentResults ?s)) = 2"
    by code_simp
  moreover have "sum_list (map puntosGanados (filter (\<lambda>r. r_torneoId r = 1) (tournamentResults ?s))) = 175"
    by code_simp
  ultimately have c1: "fst (deleteTournament 1 ?f ?s) = Inr (2, 175)"
    by simp
  from inst b1 b2 b3 b4 a2 have
    "map puntos (players (snd (deleteTournament 1 ?f ?s))) = map puntos (players fourPlayerStore)"
    and "tournamentResults (snd (deleteTournament 1 ?f ?s)) = tournamentResults fourPlayerStore"
    by blast+
  moreover have "map puntos (players fourPlayerStore) = [10, 20, 30, 40]" by code_simp
  moreover have "tournamentResults fourPlayerStore = []" by code_simp
  moreover have "map puntos (players ?s) = [110, 20, 105, 40]" by code_simp
  ultimately show ?thesis using c1 by simp
qed

subsection \<open>C9: a double-elimination bracket is generated empty\<close>

text \<open>
  C9. Generating the bracket of a Pending tournament of type \<^verbatim>\<open>'Doble eliminacion'\<close>
  with at least two resolved players is not rejected: the route answers
  \<^verbatim>\<open>matchesCreated = 0\<close>, creates no match, and the tournament is \<^verbatim>\<open>'En curso'\<close> afterwards.
\<close>

theorem doble_eliminacion_bracket_empty:
  assumes "findTournament tid s = Some t"
    and "t_estado t = Pendiente"
    and "tipo t = DobleEliminacion"
    and "2 \<le> length (findPlayers playerIds s)"
  shows "fst (generateBracket rnd shuf tid playerIds s) = Inr 0
         \<and> matches (snd (generateBracket rnd shuf tid playerIds s)) = matches s
         \<and> findTournament tid (snd (generateBracket rnd shuf tid playerIds s))
             = Some (t\<lparr>t_estado := EnCurso\<rparr>)"
  using assms
  by (simp add: generateBracket_def Let_def findTournament_setTournamentEstado)

theorem doble_eliminacion_bracket_empty_witness:
  "findTournament 7 dobleStore
     = Some \<lparr>t_id = 7, tipo = DobleEliminacion, t_estado = Pendiente, setsPorPartido = 5\<rparr>
   \<and> 2 \<le> length (findPlayers [1, 2] dobleStore)
   \<and> fst (generateBracket (\<lambda>i. 0) (\<lambda>ps. ps) 7 [1, 2] dobleStore) = Inr 0
   \<and> matches (snd (generateBracket (\<lambda>i. 0) (\<lambda>ps. ps) 7 [1, 2] dobleStore)) = []
   \<and> findTournament 7 (snd (generateBracket (\<lambda>i. 0) (\<lambda>ps. ps) 7 [1, 2] dobleStore))
       = Some \<lparr>t_id = 7, tipo = DobleEliminacion, t_estado = EnCurso, setsPorPartido = 5\<rparr>"
proof -
  let ?t = "\<lparr>t_id = 7, tipo = DobleEliminacion, t_estado = Pendiente, setsPorPartido = 5\<rparr>"
  have h1: "findTournament 7 dobleStore = Some ?t"
    by (simp add: findTournament_def dobleStore_def)
  have h2: "t_estado ?t = Pendiente" by simp
  have h3: "tipo ?t = DobleEliminacion" by simp
  have h4: "2 \<le> length (findPlayers [1, 2] dobleStore)"
    by (simp add: findPlayers_def dobleStore_def playerA_def playerB_def)
  from doble_eliminacion_bracket_empty [OF h1 h2 h3 h4, of "\<lambda>i. 0" "\<lambda>ps. ps"] h1 h4
  show ?thesis by (simp add: dobleStore_def)
qed

subsection \<open>C10: how a tied set of an accepted submission is stored\<close>

text \<open>
  C10. If an accepted result submission contains a set with equal scores, the row stored
  for that set records the match's player 2 as the set's winner, and the set counts toward
  neither side's sets-won total: the totals are the numbers of sets with a strictly
  greater score on each side.
\<close>

theorem tied_set_stored_for_player2:
  assumes "putResult mid body s = (Inr m', s')"
    and "findMatch mid s = Some m"
    and "i < length (b_sets body)"
    and "player1Score (b_sets body ! i) = player2Score (b_sets body ! i)"
  shows "filter (\<lambda>r. partidoId r = mid) (sets s') ! i =
           \<lparr>partidoId = mid, numeroSet = i + 1,
            puntosJ1 = player1Score (b_sets body ! i),
            puntosJ2 = player2Score (b_sets body ! i),
            set_ganadorId = jugador2Id (snd m)\<rparr>
         \<and> length (filter (\<lambda>r. partidoId r = mid) (sets s')) = length (b_sets body)
         \<and> setsJ1 (snd m') = length (filter (\<lambda>st. player1Score st > player2Score st) (b_sets body))
         \<and> setsJ2 (snd m') = length (filter (\<lambda>st. player2Score st > player1Score st) (b_sets body))"
proof -
  from putResult_accepted [OF assms(1,2)] obtain st where
    m': "m' = (mid, (snd m)\<lparr>setsJ1 := fst (countSets (b_sets body) (0, 0)),
                            setsJ2 := snd (countSets (b_sets body) (0, 0)),
                            ganadorId := Some (winnerId body), estado := st\<rparr>)"
    and s': "s' = generateNextMatch m'
                    (replaceSets mid (setsToCreate mid (snd m) (b_sets body))
                       (updateMatch mid (\<lambda>_. snd m') s))"
    by blast
  have rows: "filter (\<lambda>r. partidoId r = mid) (sets s') = setsToCreate mid (snd m) (b_sets body)"
    by (simp add: s' replaceSets_rows)
  show ?thesis
    using assms(3,4) by (simp add: rows setsToCreate_nth m' countSets_filter)
qed

theorem tied_set_stored_for_player2_witness:
  "findMatch 1 duelStore = Some (1, pendingMatch 1 1 2 1 ''Principal'')
   \<and> player1Score (b_sets tiedBody ! 1) = player2Score (b_sets tiedBody ! 1)
   \<and> filter (\<lambda>r. partidoId r = 1) (sets (snd (putResult 1 tiedBody duelStore))) ! 1 =
       \<lparr>partidoId = 1, numeroSet = 2, puntosJ1 = 7, puntosJ2 = 7, set_ganadorId = Some 2\<rparr>
   \<and> length (filter (\<lambda>r. partidoId r = 1) (sets (snd (putResult 1 tiedBody duelStore)))) = 3"
proof -
  let ?m' = "(1::nat, \<lparr>torneoId = 1, jugador1Id = 1, jugador2Id = Some 2, ronda = 1,
               fase = ''Principal'', ganadorId = Some 1, setsJ1 = 2,
               setsJ2 = 0, estado = Finalizado\<rparr>)"
  have "fst (putResult 1 tiedBody duelStore) = Inr ?m'"
    by code_simp
  then have h1: "putResult 1 tiedBody duelStore = (Inr ?m', snd (putResult 1 tiedBody duelStore))"
    by (simp add: prod_eq_iff)
  have h2: "findMatch 1 duelStore = Some (1, pendingMatch 1 1 2 1 ''Principal'')"
    by code_simp
  have h3: "1 < length (b_sets tiedBody)"
    by (simp add: tiedBody_def)
  have h4: "player1Score (b_sets tiedBody ! 1) = player2Score (b_sets tiedBody ! 1)"
    by (simp add: tiedBody_def)
  from tied_set_stored_for_player2 [OF h1 h2 h3 h4] h2 h4
  show ?thesis by (simp add: tiedBody_def pendingMatch_def)
qed

end
